theory Spec2Isabelle
  imports Main "HOL-Library.Multiset" "HOL-Library.Word"
begin

section \<open>Data model of main.go\<close>

text \<open>
  Go strings are byte strings: \<^typ>\<open>string\<close>. A Go \<open>error\<close> is modelled by its message
  (what \<open>%v\<close> prints); a fallible function returns \<open>string + 'a\<close> with \<open>Inl\<close> the error.
\<close>

record CSVRecord =
  ProviderNamespace :: string
  ResourceType :: string
  ModuleDisplayName :: string
  AlternativeNames :: string
  ModuleName :: string
  ModuleStatus :: string
  RepoURL :: string
  PublicRegistryReference :: string
  TelemetryIdPrefix :: string
  PrimaryModuleOwnerGHHandle :: string
  PrimaryModuleOwnerDisplayName :: string
  SecondaryModuleOwnerGHHandle :: string
  SecondaryModuleOwnerDisplayName :: string
  ModuleOwnersGHTeam :: string
  ModuleContributorsGHTeam :: string
  Description :: string
  Comments :: string
  FirstPublishedIn :: string

record ProviderVersion =
  ProviderName :: string
  Version :: string

text \<open>
  \<open>Result\<close> embeds the \<open>CSVRecord\<close> (field \<open>Record\<close>). A nil slice and a nil map have no
  entries: they are \<open>[]\<close> and \<open>Map.empty\<close>, as the empty slice and \<open>make(map[string]bool)\<close> are.
\<close>

record Result =
  Record :: CSVRecord
  Providers :: "ProviderVersion list"
  Compatibility :: "string \<rightharpoonup> bool"
  LastCommitDate :: string
  LastCommitAuthor :: string
  Error :: string

definition zeroRecord :: CSVRecord where
  "zeroRecord = \<lparr>ProviderNamespace = [], ResourceType = [], ModuleDisplayName = [],
     AlternativeNames = [], ModuleName = [], ModuleStatus = [], RepoURL = [],
     PublicRegistryReference = [], TelemetryIdPrefix = [], PrimaryModuleOwnerGHHandle = [],
     PrimaryModuleOwnerDisplayName = [], SecondaryModuleOwnerGHHandle = [],
     SecondaryModuleOwnerDisplayName = [], ModuleOwnersGHTeam = [],
     ModuleContributorsGHTeam = [], Description = [], Comments = [], FirstPublishedIn = []\<rparr>"

text \<open>\<open>Result{CSVRecord: record}\<close>: every other field has its zero value.\<close>

definition newResult :: "CSVRecord \<Rightarrow> Result" where
  "newResult record = \<lparr>Record = record, Providers = [], Compatibility = Map.empty,
     LastCommitDate = [], LastCommitAuthor = [], Error = []\<rparr>"

text \<open>The package variable \<open>providersToCheck\<close>.\<close>

definition providersToCheck :: "string \<rightharpoonup> string" where
  "providersToCheck = [''azurerm'' \<mapsto> ''4.0.0'', ''azapi'' \<mapsto> ''2.0.0'']"

section \<open>Strings\<close>

text \<open>\<open>strings.HasPrefix\<close> and \<open>strings.Contains\<close>.\<close>

fun HasPrefix :: "string \<Rightarrow> string \<Rightarrow> bool" where
  "HasPrefix s [] = True"
| "HasPrefix [] (p # ps) = False"
| "HasPrefix (c # s) (p # ps) = (c = p \<and> HasPrefix s ps)"

fun Contains :: "string \<Rightarrow> string \<Rightarrow> bool" where
  "Contains [] sub = (sub = [])"
| "Contains (c # s) sub = (HasPrefix (c # s) sub \<or> Contains s sub)"

text \<open>The verb \<open>%d\<close> on a non-negative integer.\<close>

fun itoa :: "nat \<Rightarrow> string" where
  "itoa n = (if n < 10 then [''0123456789'' ! n]
             else itoa (n div 10) @ [''0123456789'' ! (n mod 10)])"

section \<open>The world outside the program\<close>

text \<open>
  The program reaches the outside through \<open>os.MkdirTemp\<close>, the \<open>git\<close> subprocesses,
  \<open>tfconfig.LoadModule\<close>, the logger and \<open>time.Sleep\<close>. What the outside answers is an
  \<open>env\<close>; the calls of \<open>cloneRepo\<close> are numbered by the attempt that makes them, since
  the same URL may fail once and succeed later.
  \<^item> \<open>MkdirTemp n\<close>: the error, or the path of the fresh directory;
  \<^item> \<open>GitClone n url dir\<close>: \<open>None\<close> when \<open>git clone\<close> exits with success, otherwise the
    error and the combined output;
  \<^item> \<open>LoadModule path\<close>: the diagnostics when they hold an error, otherwise the
    \<open>RequiredProviders\<close> of the module, in the order the \<open>range\<close> over the Go map
    visits them, each name with its \<open>VersionConstraints\<close>;
  \<^item> \<open>GitLog path\<close>: what \<open>getLastCommitInfo\<close> returns for the clone at \<open>path\<close>: the
    error, or the RFC 3339 date and the author of the last commit.

  The scratch directories that exist are a set of paths, passed through the functions;
  what a function does to the outside is the list of events it returns.
\<close>

record env =
  MkdirTemp :: "nat \<Rightarrow> string + string"
  GitClone :: "nat \<Rightarrow> string \<Rightarrow> string \<Rightarrow> (string \<times> string) option"
  LoadModule :: "string \<Rightarrow> string + (string \<times> string list) list"
  GitLog :: "string \<Rightarrow> string + (string \<times> string)"

type_synonym fsys = "string set"

datatype event =
    MkdirTempFailed
  | MkdirTempCreated string
  | RunGitClone string string
  | RemoveAll string
  | LogPrintf string
  | Sleep nat

text \<open>\<open>2 * time.Second\<close>, a \<open>time.Duration\<close> in nanoseconds.\<close>

definition Second :: nat where
  "Second = 1000000000"

section \<open>cloneRepo\<close>

definition cloneRepo :: "env \<Rightarrow> nat \<Rightarrow> string \<Rightarrow> fsys \<Rightarrow> (string + string) \<times> fsys \<times> event list" where
  "cloneRepo env n repoURL fs =
     (case MkdirTemp env n of
        Inl err \<Rightarrow> (Inl err, fs, [MkdirTempFailed])
      | Inr tempDir \<Rightarrow>
          (case GitClone env n repoURL tempDir of
             Some (err, output) \<Rightarrow>
               (Inl (''git clone failed: '' @ err @ '', output: '' @ output),
                insert tempDir fs - {tempDir},
                [MkdirTempCreated tempDir, RunGitClone repoURL tempDir, RemoveAll tempDir])
           | None \<Rightarrow>
               (Inr tempDir, insert tempDir fs,
                [MkdirTempCreated tempDir, RunGitClone repoURL tempDir])))"

section \<open>parseTerraformModule\<close>

definition parseTerraformModule :: "env \<Rightarrow> string \<Rightarrow> string + ProviderVersion list" where
  "parseTerraformModule env modulePath =
     (case LoadModule env modulePath of
        Inl diags \<Rightarrow> Inl (''failed to load module: '' @ diags)
      | Inr required \<Rightarrow>
          Inr (concat (map (\<lambda>(providerName, constraints).
                 map (\<lambda>constraint. \<lparr>ProviderName = providerName, Version = constraint\<rparr>)
                   constraints) required)))"

section \<open>checkVersionConstraints\<close>

text \<open>
  The three functions of \<open>github.com/hashicorp/go-version\<close> that the program calls. The
  pipeline is defined over any such library; a model of the library itself follows below.
\<close>

record ('v, 'c) verlib =
  NewVersion :: "string \<Rightarrow> string + 'v"
  NewConstraint :: "string \<Rightarrow> string + 'c"
  Check :: "'c \<Rightarrow> 'v \<Rightarrow> bool"

definition checkVersionConstraints :: "('v, 'c) verlib \<Rightarrow> string \<Rightarrow> string \<Rightarrow> string + bool" where
  "checkVersionConstraints lib currentProviderVersion constraint =
     (case NewVersion lib currentProviderVersion of
        Inl err \<Rightarrow> Inl (''failed to parse version '' @ [CHR 0x27] @ currentProviderVersion
                        @ [CHR 0x27] @ '': '' @ err)
      | Inr ver \<Rightarrow>
          (case NewConstraint lib constraint of
             Inl err \<Rightarrow> Inl (''failed to parse constraint '' @ [CHR 0x27] @ constraint
                             @ [CHR 0x27] @ '': '' @ err)
           | Inr c \<Rightarrow> Inr (Check lib c ver)))"

section \<open>The version library\<close>

text \<open>
  Modelled from the spec: the module \<open>github.com/hashicorp/go-version\<close> (v1.7.0 in
  \<open>go.mod\<close>) is not under \<open>src/\<close>. The spec's Constraint Evaluator parses the floor as
  a version and the declared text as a constraint expression, fails when either is
  malformed, and decides by the comparison of version segments under the operators
  \<open>=\<close>, \<open>!=\<close>, \<open>>\<close>, \<open><\<close>, \<open>>=\<close>, \<open><=\<close> and \<open>~>\<close>. The model follows the library's
  functions \<open>NewVersion\<close>, \<open>NewConstraint\<close> and \<open>Constraints.Check\<close>: its two regular
  expressions are written as the parsers below. The wording of the library's own
  error messages plays no part in the properties.
\<close>

record GoVersion =
  metadata :: string
  pre :: string
  segments :: "int list"
  si :: nat
  original :: string

datatype ConstraintOp =
  OpEqual | OpNotEqual | OpGreaterThan | OpLessThan | OpGreaterThanEqual | OpLessThanEqual
  | OpPessimistic

record GoConstraint =
  op :: ConstraintOp
  check :: GoVersion
  coriginal :: string

definition isDigit :: "char \<Rightarrow> bool" where
  "isDigit c = (c \<in> set ''0123456789'')"

text \<open>The class \<open>[0-9A-Za-z\-~]\<close> of the version pattern.\<close>

definition isIdChar :: "char \<Rightarrow> bool" where
  "isIdChar c = (c \<in> set ''0123456789ABCDEFGHIJKLMNOPQRSTUVWXYZabcdefghijklmnopqrstuvwxyz-~'')"

text \<open>The class \<open>\s\<close> of Go's \<open>regexp\<close>.\<close>

definition isSpace :: "char \<Rightarrow> bool" where
  "isSpace c = (c \<in> {CHR 0x09, CHR 0x0A, CHR 0x0C, CHR 0x0D, CHR 0x20})"

text \<open>\<open>strings.Split\<close> with a separator of one byte.\<close>

fun splitOn :: "char \<Rightarrow> string \<Rightarrow> string list" where
  "splitOn sep [] = [[]]"
| "splitOn sep (c # cs) =
     (if c = sep then [] # splitOn sep cs
      else (case splitOn sep cs of [] \<Rightarrow> [[c]] | p # ps \<Rightarrow> (c # p) # ps))"

definition digitVal :: "char \<Rightarrow> int" where
  "digitVal c = int (of_char c) - 48"

definition decimal :: "string \<Rightarrow> int" where
  "decimal ds = foldl (\<lambda>acc c. 10 * acc + digitVal c) 0 ds"

text \<open>
  \<open>strconv.ParseInt(s, 10, 64)\<close>: the value and whether \<open>err == nil\<close>. A syntax error
  returns 0, a value out of range the nearest bound of \<open>int64\<close>.
\<close>

definition ParseInt :: "string \<Rightarrow> int \<times> bool" where
  "ParseInt s =
     (let neg = (s \<noteq> [] \<and> hd s = CHR ''-'');
          ds = (if s \<noteq> [] \<and> (hd s = CHR ''-'' \<or> hd s = CHR ''+'') then tl s else s)
      in if ds = [] \<or> \<not> list_all isDigit ds then (0, False)
         else (let n = decimal ds in
               if neg then (if n > 2 ^ 63 then (- (2 ^ 63), False) else (- n, True))
               else (if n > 2 ^ 63 - 1 then (2 ^ 63 - 1, False) else (n, True))))"

text \<open>A dotted run of identifiers: \<open>[0-9A-Za-z\-~]+(\.[0-9A-Za-z\-~]+)*\<close>.\<close>

definition dottedIds :: "string \<Rightarrow> bool" where
  "dottedIds s = list_all (\<lambda>p. p \<noteq> [] \<and> list_all isIdChar p) (splitOn (CHR ''.'') s)"

text \<open>
  The prerelease group of the pattern, on the text between the segments and the
  \<open>+\<close> of the metadata: \<open>-\<close> and a dotted run, or a dotted run that does not start
  with a digit. The result is the \<open>pre\<close> the library stores.
\<close>

definition matchPre :: "string \<Rightarrow> string option" where
  "matchPre r =
     (if r = [] then Some []
      else if hd r = CHR ''-'' \<and> dottedIds (tl r) then Some (tl r)
      else if dottedIds r \<and> \<not> isDigit (hd r) then Some r
      else None)"

text \<open>The metadata group, on the text from the first \<open>+\<close> on.\<close>

definition matchMeta :: "string \<Rightarrow> string option" where
  "matchMeta m =
     (if m = [] then Some []
      else if dottedIds (tl m) then Some (tl m)
      else None)"

text \<open>
  The version pattern \<open>v?([0-9]+(\.[0-9]+)*?)(-pre|-?pre)?(\+meta)?\<close>, anchored at both
  ends: the dotted segments as texts, \<open>pre\<close> and \<open>metadata\<close>.
\<close>

definition matchVersion :: "string \<Rightarrow> (string list \<times> string \<times> string) option" where
  "matchVersion v =
     (let body = (if v \<noteq> [] \<and> hd v = CHR ''v'' then tl v else v);
          isNum = (\<lambda>c. isDigit c \<or> c = CHR ''.'');
          num = takeWhile isNum body;
          rest = dropWhile isNum body;
          segs = splitOn (CHR ''.'') num;
          notPlus = (\<lambda>c. c \<noteq> CHR ''+'')
      in if \<not> list_all (\<lambda>p. p \<noteq> []) segs then None
         else (case matchPre (takeWhile notPlus rest) of
                 None \<Rightarrow> None
               | Some p \<Rightarrow>
                   (case matchMeta (dropWhile notPlus rest) of
                      None \<Rightarrow> None
                    | Some m \<Rightarrow> Some (segs, p, m))))"

fun parseSegments :: "string list \<Rightarrow> string + int list" where
  "parseSegments [] = Inr []"
| "parseSegments (str # strs) =
     (case ParseInt str of
        (val, False) \<Rightarrow>
          Inl (''error parsing version: strconv.ParseInt: parsing '' @ [CHR 0x22] @ str
               @ [CHR 0x22] @ '': value out of range'')
      | (val, True) \<Rightarrow>
          (case parseSegments strs of Inl e \<Rightarrow> Inl e | Inr vals \<Rightarrow> Inr (val # vals)))"

definition newVersion :: "string \<Rightarrow> string + GoVersion" where
  "newVersion v =
     (case matchVersion v of
        None \<Rightarrow> Inl (''malformed version: '' @ v)
      | Some (segmentsStr, p, m) \<Rightarrow>
          (case parseSegments segmentsStr of
             Inl e \<Rightarrow> Inl e
           | Inr segs \<Rightarrow>
               Inr \<lparr>metadata = m, pre = p,
                    segments = segs @ replicate (3 - length segs) 0,
                    si = length segmentsStr, original = v\<rparr>))"

text \<open>Comparison of strings by bytes, Go's \<open>>\<close> on strings.\<close>

fun strGreater :: "string \<Rightarrow> string \<Rightarrow> bool" where
  "strGreater [] t = False"
| "strGreater (a # s) [] = True"
| "strGreater (a # s) (b # t) =
     ((of_char a :: nat) > of_char b \<or> (a = b \<and> strGreater s t))"

definition comparePart :: "string \<Rightarrow> string \<Rightarrow> int" where
  "comparePart preSelf preOther =
     (if preSelf = preOther then 0
      else (case (ParseInt preSelf, ParseInt preOther) of
        ((selfInt, selfNumeric), (otherInt, otherNumeric)) \<Rightarrow>
          if preSelf = [] then (if otherNumeric then - 1 else 1)
          else if preOther = [] then (if selfNumeric then 1 else - 1)
          else if selfNumeric \<and> \<not> otherNumeric then - 1
          else if \<not> selfNumeric \<and> otherNumeric then 1
          else if \<not> selfNumeric \<and> \<not> otherNumeric \<and> strGreater preSelf preOther then 1
          else if selfInt > otherInt then 1
          else - 1))"

text \<open>The loop of \<open>comparePrereleases\<close> over the longer of the two lists of parts.\<close>

fun compareParts :: "string list \<Rightarrow> string list \<Rightarrow> int" where
  "compareParts [] [] = 0"
| "compareParts (a # as) [] =
     (if comparePart a [] \<noteq> 0 then comparePart a [] else compareParts as [])"
| "compareParts [] (b # bs) =
     (if comparePart [] b \<noteq> 0 then comparePart [] b else compareParts [] bs)"
| "compareParts (a # as) (b # bs) =
     (if comparePart a b \<noteq> 0 then comparePart a b else compareParts as bs)"

definition comparePrereleases :: "string \<Rightarrow> string \<Rightarrow> int" where
  "comparePrereleases v other =
     (if v = other then 0
      else compareParts (splitOn (CHR ''.'') v) (splitOn (CHR ''.'') other))"

fun joinDots :: "string list \<Rightarrow> string" where
  "joinDots [] = []"
| "joinDots [p] = p"
| "joinDots (p # q # ps) = p @ ''.'' @ joinDots (q # ps)"

definition formatInt :: "int \<Rightarrow> string" where
  "formatInt i = (if i < 0 then ''-'' @ itoa (nat (- i)) else itoa (nat i))"

definition versionString :: "GoVersion \<Rightarrow> string" where
  "versionString v =
     joinDots (map formatInt (segments v))
     @ (if pre v \<noteq> [] then ''-'' @ pre v else [])
     @ (if metadata v \<noteq> [] then ''+'' @ metadata v else [])"

text \<open>
  The loop of \<open>Compare\<close> over segments of possibly different number: a missing segment
  counts as equal when all that remain on the other side are zero.
\<close>

fun compareSegments :: "int list \<Rightarrow> int list \<Rightarrow> int" where
  "compareSegments [] [] = 0"
| "compareSegments [] (r # rs) = (if list_all (\<lambda>x. x = 0) (r # rs) then 0 else - 1)"
| "compareSegments (l # ls) [] = (if list_all (\<lambda>x. x = 0) (l # ls) then 0 else 1)"
| "compareSegments (l # ls) (r # rs) =
     (if l = r then compareSegments ls rs else if l < r then - 1 else 1)"

definition Compare :: "GoVersion \<Rightarrow> GoVersion \<Rightarrow> int" where
  "Compare v other =
     (if versionString v = versionString other then 0
      else if segments v = segments other then
        (if pre v = [] \<and> pre other = [] then 0
         else if pre v = [] then 1
         else if pre other = [] then - 1
         else comparePrereleases (pre v) (pre other))
      else compareSegments (segments v) (segments other))"

definition prereleaseCheck :: "GoVersion \<Rightarrow> GoVersion \<Rightarrow> bool" where
  "prereleaseCheck v c =
     (if pre c \<noteq> [] \<and> pre v \<noteq> [] then segments v = segments c
      else if pre c = [] \<and> pre v \<noteq> [] then False
      else True)"

definition constraintPessimistic :: "GoVersion \<Rightarrow> GoVersion \<Rightarrow> bool" where
  "constraintPessimistic v c =
     (if \<not> prereleaseCheck v c \<or> (pre c \<noteq> [] \<and> pre v = []) then False
      else if Compare v c < 0 then False
      else if length (segments c) > length (segments v) then False
      else if \<not> list_all (\<lambda>i. segments v ! i = segments c ! i) [0..<si c - 1] then False
      else if segments c ! (length (segments c) - 1) > segments v ! (length (segments c) - 1)
        then False
      else True)"

text \<open>The table \<open>constraintOperators\<close>, applied: \<open>c.f(v, c.check)\<close>.\<close>

definition constraintCheck :: "GoConstraint \<Rightarrow> GoVersion \<Rightarrow> bool" where
  "constraintCheck c v =
     (case op c of
        OpEqual \<Rightarrow> Compare v (check c) = 0
      | OpNotEqual \<Rightarrow> Compare v (check c) \<noteq> 0
      | OpGreaterThan \<Rightarrow> prereleaseCheck v (check c) \<and> Compare v (check c) = 1
      | OpLessThan \<Rightarrow> prereleaseCheck v (check c) \<and> Compare v (check c) = - 1
      | OpGreaterThanEqual \<Rightarrow> prereleaseCheck v (check c) \<and> Compare v (check c) \<ge> 0
      | OpLessThanEqual \<Rightarrow> prereleaseCheck v (check c) \<and> Compare v (check c) \<le> 0
      | OpPessimistic \<Rightarrow> constraintPessimistic v (check c))"

definition operatorOf :: "string \<Rightarrow> ConstraintOp option" where
  "operatorOf s =
     (if s = [] \<or> s = ''='' then Some OpEqual
      else if s = ''!='' then Some OpNotEqual
      else if s = ''>'' then Some OpGreaterThan
      else if s = ''<'' then Some OpLessThan
      else if s = ''>='' then Some OpGreaterThanEqual
      else if s = ''<='' then Some OpLessThanEqual
      else if s = ''~>'' then Some OpPessimistic
      else None)"

text \<open>
  \<open>parseSingle\<close>: the constraint pattern is \<open>^\s*(operator)\s*(version)\s*$\<close>; the
  operator is the run of operator characters in front, since no version starts with one.
\<close>

definition parseSingle :: "string \<Rightarrow> string + GoConstraint" where
  "parseSingle v =
     (let isOp = (\<lambda>c. c \<in> set ''=!<>~'');
          s1 = dropWhile isSpace v;
          opStr = takeWhile isOp s1;
          s2 = dropWhile isSpace (dropWhile isOp s1);
          ver = rev (dropWhile isSpace (rev s2))
      in case operatorOf opStr of
           None \<Rightarrow> Inl (''Malformed constraint: '' @ v)
         | Some cop \<Rightarrow>
             (if matchVersion ver = None then Inl (''Malformed constraint: '' @ v)
              else (case newVersion ver of
                      Inl err \<Rightarrow> Inl err
                    | Inr chk \<Rightarrow> Inr \<lparr>op = cop, check = chk, coriginal = v\<rparr>)))"

fun parseAll :: "string list \<Rightarrow> string + GoConstraint list" where
  "parseAll [] = Inr []"
| "parseAll (single # vs) =
     (case parseSingle single of
        Inl err \<Rightarrow> Inl err
      | Inr c \<Rightarrow> (case parseAll vs of Inl err \<Rightarrow> Inl err | Inr cs \<Rightarrow> Inr (c # cs)))"

definition newConstraint :: "string \<Rightarrow> string + GoConstraint list" where
  "newConstraint v = parseAll (splitOn (CHR '','') v)"

definition constraintsCheck :: "GoConstraint list \<Rightarrow> GoVersion \<Rightarrow> bool" where
  "constraintsCheck cs v = list_all (\<lambda>c. constraintCheck c v) cs"

definition go_version :: "(GoVersion, GoConstraint list) verlib" where
  "go_version = \<lparr>NewVersion = newVersion, NewConstraint = newConstraint,
     Check = constraintsCheck\<rparr>"

section \<open>getLastCommitInfo\<close>

text \<open>
  \<open>getLastCommitInfo\<close> runs \<open>git log\<close> in the clone and reformats its output; all of its
  outcomes are an error or a date with an author, which is what the environment gives.
\<close>

definition getLastCommitInfo :: "env \<Rightarrow> string \<Rightarrow> string + (string \<times> string)" where
  "getLastCommitInfo env repoPath = GitLog env repoPath"

section \<open>processRecord\<close>

text \<open>
  The retry loop \<open>for attempt := 1; attempt <= 3; attempt++\<close>. Its state is the pair
  \<open>(repoPath, err)\<close> of the two variables it assigns, with \<open>None\<close> for a nil error.
\<close>

function cloneLoop ::
  "env \<Rightarrow> string \<Rightarrow> bool \<Rightarrow> nat \<Rightarrow> string \<times> string option \<Rightarrow> fsys \<Rightarrow> event list
     \<Rightarrow> (string \<times> string option) \<times> fsys \<times> event list" where
  "cloneLoop env url quiet attempt st fs evs =
     (if attempt \<le> 3 then
        (case cloneRepo env attempt url fs of
           (Inr repoPath, fs1, ev1) \<Rightarrow> ((repoPath, None), fs1, evs @ ev1)
         | (Inl err, fs1, ev1) \<Rightarrow>
             cloneLoop env url quiet (attempt + 1) ([], Some err) fs1
               (evs @ ev1
                @ (if \<not> quiet
                   then [LogPrintf (''[WARN] Attempt '' @ itoa attempt
                           @ '': Failed to clone repo '' @ [CHR 0x27] @ url @ [CHR 0x27]
                           @ '': '' @ err)]
                   else [])
                @ [Sleep (2 * Second)]))
      else (st, fs, evs))"
  by pat_completeness auto
termination
  by (relation "measure (\<lambda>(env, url, quiet, attempt, st, fs, evs). 4 - attempt)") auto

text \<open>
  The loop over \<open>providers\<close> that fills \<open>res.Compatibility\<close>. \<open>Inl res\<close> is the
  \<open>return res\<close> inside the loop, \<open>Inr res\<close> the loop running to its end.
\<close>

fun checkLoop :: "('v, 'c) verlib \<Rightarrow> ProviderVersion list \<Rightarrow> Result \<Rightarrow> Result + Result" where
  "checkLoop lib [] res = Inr res"
| "checkLoop lib (provider # rest) res =
     (case providersToCheck (ProviderName provider) of
        None \<Rightarrow> checkLoop lib rest res
      | Some constraint \<Rightarrow>
          (case checkVersionConstraints lib constraint (Version provider) of
             Inl cErr \<Rightarrow>
               Inl (res\<lparr>Error := ''failed to check version constraints for provider ''
                      @ [CHR 0x27] @ ProviderName provider @ [CHR 0x27] @ '': '' @ cErr\<rparr>)
           | Inr valid \<Rightarrow>
               checkLoop lib rest
                 (res\<lparr>Compatibility := (Compatibility res)(ProviderName provider \<mapsto> valid)\<rparr>)))"

text \<open>
  The part of \<open>processRecord\<close> after \<open>defer os.RemoveAll(repoPath)\<close>: it returns the
  result and the events; the deferred call runs when it returns, whichever \<open>return\<close>
  that is.
\<close>

definition afterClone ::
  "('v, 'c) verlib \<Rightarrow> env \<Rightarrow> CSVRecord \<Rightarrow> bool \<Rightarrow> string \<Rightarrow> Result \<Rightarrow> Result \<times> event list" where
  "afterClone lib env record quiet repoPath res =
     (case parseTerraformModule env repoPath of
        Inl err \<Rightarrow> (res\<lparr>Error := ''failed to parse Terraform module: '' @ err\<rparr>, [])
      | Inr providers \<Rightarrow>
          (case checkLoop lib providers
                  (res\<lparr>Providers := providers, Compatibility := Map.empty\<rparr>) of
             Inl res1 \<Rightarrow> (res1, [])
           | Inr res1 \<Rightarrow>
               (case getLastCommitInfo env repoPath of
                  Inl commitErr \<Rightarrow>
                    (res1\<lparr>Error := Error res1 @ '' | could not retrieve last commit info: ''
                            @ commitErr\<rparr>,
                     if \<not> quiet
                     then [LogPrintf (''[WARN] Could not retrieve last commit for ''
                             @ [CHR 0x27] @ RepoURL record @ [CHR 0x27] @ '': '' @ commitErr)]
                     else [])
                | Inr (lastDate, author) \<Rightarrow>
                    (res1\<lparr>LastCommitDate := lastDate, LastCommitAuthor := author\<rparr>, []))))"

definition processRecord ::
  "('v, 'c) verlib \<Rightarrow> env \<Rightarrow> CSVRecord \<Rightarrow> bool \<Rightarrow> fsys \<Rightarrow> Result \<times> fsys \<times> event list" where
  "processRecord lib env record quiet fs =
     (let res = newResult record in
      case cloneLoop env (RepoURL record) quiet 1 ([], None) fs [] of
        ((repoPath, Some err), fs1, evs) \<Rightarrow>
          (res\<lparr>Error := ''failed to clone repo '' @ [CHR 0x27] @ RepoURL record @ [CHR 0x27]
                  @ '': '' @ err\<rparr>, fs1, evs)
      | ((repoPath, None), fs1, evs) \<Rightarrow>
          (case afterClone lib env record quiet repoPath res of
             (res1, evs1) \<Rightarrow> (res1, fs1 - {repoPath}, evs @ evs1 @ [RemoveAll repoPath])))"

section \<open>The time package\<close>

text \<open>
  Modelled from the spec: the package \<open>time\<close> of the Go library is not under \<open>src/\<close>;
  the spec's threshold is six months before the evaluation time, which the code takes
  with \<open>AddDate(0, -6, 0)\<close> and compares with \<open>Before\<close>.
  A \<open>time.Time\<close> is an instant: nanoseconds since the Unix epoch. A \<open>Location\<close> is a
  fixed offset \<open>loc\<close> from UTC in seconds (0 for UTC); zones that change their offset
  are not modelled. \<open>daysFromCivil\<close> and \<open>civilFromDays\<close> convert between a date of the
  proleptic Gregorian calendar and the number of days since 1970-01-01.

  \<open>Date\<close> normalises as \<open>time.Date\<close> does: a month outside 1..12 overflows into the
  year, and a day outside the month counts on from the first of the month. The clock
  \<open>inDay\<close> is the hour, minute, second and nanosecond as nanoseconds of the day.
  \<open>AddDate\<close> reads the date and the clock of \<open>t\<close> in its location and calls \<open>Date\<close>.
  \<open>time.Parse(time.RFC3339, s)\<close> is a parameter \<open>Parse\<close> of the summarizer, \<open>None\<close>
  when it returns an error.
\<close>

type_synonym Time = int

definition nsPerSecond :: int where
  "nsPerSecond = 1000000000"

definition nsPerDay :: int where
  "nsPerDay = 86400 * nsPerSecond"

definition daysFromCivil :: "int \<Rightarrow> int \<Rightarrow> int \<Rightarrow> int" where
  "daysFromCivil y m d =
     (let y1 = (if m \<le> 2 then y - 1 else y);
          era = y1 div 400;
          yoe = y1 - era * 400;
          doy = (153 * (if m > 2 then m - 3 else m + 9) + 2) div 5 + d - 1;
          doe = yoe * 365 + yoe div 4 - yoe div 100 + doy
      in era * 146097 + doe - 719468)"

definition civilFromDays :: "int \<Rightarrow> int \<times> int \<times> int" where
  "civilFromDays z =
     (let z1 = z + 719468;
          era = z1 div 146097;
          doe = z1 - era * 146097;
          yoe = (doe - doe div 1460 + doe div 36524 - doe div 146096) div 365;
          doy = doe - (365 * yoe + yoe div 4 - yoe div 100);
          mp = (5 * doy + 2) div 153;
          d = doy - (153 * mp + 2) div 5 + 1;
          m = (if mp < 10 then mp + 3 else mp - 9)
      in (if m \<le> 2 then yoe + era * 400 + 1 else yoe + era * 400, m, d))"

definition Date :: "int \<Rightarrow> int \<Rightarrow> int \<Rightarrow> int \<Rightarrow> int \<Rightarrow> Time" where
  "Date loc year month day inDay =
     (let m0 = month - 1;
          y = year + m0 div 12;
          m = m0 mod 12 + 1
      in (daysFromCivil y m 1 + (day - 1)) * nsPerDay + inDay - loc * nsPerSecond)"

definition AddDate :: "int \<Rightarrow> int \<Rightarrow> int \<Rightarrow> int \<Rightarrow> Time \<Rightarrow> Time" where
  "AddDate loc years months days t =
     (let wall = t + loc * nsPerSecond in
      case civilFromDays (wall div nsPerDay) of
        (year, month, day) \<Rightarrow>
          Date loc (year + years) (month + months) (day + days) (wall mod nsPerDay))"

definition Before :: "Time \<Rightarrow> Time \<Rightarrow> bool" where
  "Before t u = (t < u)"

section \<open>summarizeResults\<close>

text \<open>
  The loop of \<open>summarizeResults\<close> with its three counters (Go \<open>int\<close>, which a count
  of slice elements cannot overflow), and the function itself; \<open>now\<close> is the
  \<open>time.Now()\<close> of the call.
\<close>

fun summarizeLoop ::
  "(string \<Rightarrow> Time option) \<Rightarrow> Time \<Rightarrow> Result list \<Rightarrow> int \<times> int \<times> int \<Rightarrow> int \<times> int \<times> int" where
  "summarizeLoop Parse sixMonthsAgo [] counts = counts"
| "summarizeLoop Parse sixMonthsAgo (r # rs) (unreachableCount, notCompatibleCount, dormantCount) =
     (let unreachableCount1 =
            (if Contains (Error r) ''failed to clone repo'' then unreachableCount + 1
             else unreachableCount);
          dormantCount1 =
            (if LastCommitDate r \<noteq> [] then
               (case Parse (LastCommitDate r) of
                  Some t \<Rightarrow> if Before t sixMonthsAgo then dormantCount + 1 else dormantCount
                | None \<Rightarrow> dormantCount)
             else dormantCount);
          (azurermStatus, hasAzurerm) =
            (case Compatibility r ''azurerm'' of None \<Rightarrow> (False, False) | Some b \<Rightarrow> (b, True));
          (azapiStatus, hasAzapi) =
            (case Compatibility r ''azapi'' of None \<Rightarrow> (False, False) | Some b \<Rightarrow> (b, True));
          notCompatibleCount1 =
            (if (hasAzurerm \<and> \<not> azurermStatus) \<or> (hasAzapi \<and> \<not> azapiStatus)
             then notCompatibleCount + 1 else notCompatibleCount)
      in summarizeLoop Parse sixMonthsAgo rs
           (unreachableCount1, notCompatibleCount1, dormantCount1))"

definition summarizeResults ::
  "(string \<Rightarrow> Time option) \<Rightarrow> int \<Rightarrow> Time \<Rightarrow> Result list \<Rightarrow> int \<times> int \<times> int" where
  "summarizeResults Parse loc now results =
     (let sixMonthsAgo = AddDate loc 0 (- 6) 0 now
      in summarizeLoop Parse sixMonthsAgo results (0, 0, 0))"

section \<open>The dispatcher\<close>

text \<open>
  The \<open>process\<close> action of \<open>main\<close> from \<open>results := make(...)\<close> to the end of the loop
  over \<open>resultChan\<close>. Its goroutines are the main goroutine, \<open>numWorkers\<close> workers and
  the goroutine that waits for the workers and closes \<open>resultChan\<close>; they communicate
  through the two buffered channels only. The state holds what they share and where
  each of them stands:
  \<^item> \<open>pending\<close>: the records the main goroutine has still to send; \<open>mainPc\<close>: whether it
    is sending (\<open>Enqueue\<close>), receiving results (\<open>Gather\<close>), past the loop (\<open>Finished\<close>),
    or has panicked on \<open>results[idx]\<close>;
  \<^item> \<open>recordChan\<close>, \<open>resultChan\<close>: the buffers of the channels, oldest element first,
    and whether each is closed; both have the capacity \<open>len(records)\<close>, which is also
    the length of \<open>results\<close>;
  \<^item> \<open>workers\<close>: each worker is at the receive of its \<open>range\<close> loop, or holds the result
    of \<open>processRecord\<close> and is about to send it, or has left the loop;
  \<^item> \<open>index\<close>: the \<open>int32\<close> counter; \<open>results\<close>: the slice, of zero values at first.

  An action is one step of one goroutine, enabled only where that goroutine does not
  block; a schedule is a list of actions, and \<open>run\<close> is \<open>None\<close> when the schedule asks
  for a step that is not enabled. \<open>processRecord\<close> runs inside the receiving step of
  a worker and is the parameter \<open>proc\<close>; the progress bar is left out. The receive of
  the main goroutine computes \<open>idx := atomic.AddInt32(&index, 1) - 1\<close> in \<open>int32\<close> and
  panics when \<open>idx\<close> is not an index of \<open>results\<close>. After the main goroutine has
  finished or panicked nothing runs.
\<close>

datatype mainpc = Enqueue | Gather | Finished | Panicked

datatype worker = Receiving | Sending Result | Exited

record dispatch =
  pending :: "CSVRecord list"
  mainPc :: mainpc
  recordChan :: "CSVRecord list"
  recordClosed :: bool
  workers :: "worker list"
  resultChan :: "Result list"
  resultClosed :: bool
  index :: "32 word"
  results :: "Result list"

datatype action =
    MainSend
  | MainClose
  | WorkerRecv nat
  | WorkerSend nat
  | WorkerExit nat
  | CloserClose
  | MainRecv
  | MainExit

definition init :: "CSVRecord list \<Rightarrow> nat \<Rightarrow> dispatch" where
  "init records numWorkers =
     \<lparr>pending = records, mainPc = Enqueue, recordChan = [], recordClosed = False,
      workers = replicate numWorkers Receiving, resultChan = [], resultClosed = False,
      index = 0, results = replicate (length records) (newResult zeroRecord)\<rparr>"

fun isReceiving :: "worker \<Rightarrow> bool" where
  "isReceiving Receiving = True"
| "isReceiving w = False"

fun isExited :: "worker \<Rightarrow> bool" where
  "isExited Exited = True"
| "isExited w = False"

fun exec :: "(CSVRecord \<Rightarrow> Result) \<Rightarrow> action \<Rightarrow> dispatch \<Rightarrow> dispatch option" where
  "exec proc MainSend s =
     (case pending s of
        [] \<Rightarrow> None
      | r # rs \<Rightarrow>
          if mainPc s = Enqueue \<and> length (recordChan s) < length (results s)
          then Some (s\<lparr>pending := rs, recordChan := recordChan s @ [r]\<rparr>)
          else None)"
| "exec proc MainClose s =
     (if mainPc s = Enqueue \<and> pending s = []
      then Some (s\<lparr>recordClosed := True, mainPc := Gather\<rparr>)
      else None)"
| "exec proc (WorkerRecv i) s =
     (if i < length (workers s) \<and> isReceiving (workers s ! i)
      then (case recordChan s of
              [] \<Rightarrow> None
            | r # q \<Rightarrow> Some (s\<lparr>recordChan := q,
                                workers := (workers s)[i := Sending (proc r)]\<rparr>))
      else None)"
| "exec proc (WorkerSend i) s =
     (if i < length (workers s)
      then (case workers s ! i of
              Sending r \<Rightarrow>
                if length (resultChan s) < length (results s)
                then Some (s\<lparr>resultChan := resultChan s @ [r],
                             workers := (workers s)[i := Receiving]\<rparr>)
                else None
            | _ \<Rightarrow> None)
      else None)"
| "exec proc (WorkerExit i) s =
     (if i < length (workers s) \<and> isReceiving (workers s ! i)
         \<and> recordChan s = [] \<and> recordClosed s
      then Some (s\<lparr>workers := (workers s)[i := Exited]\<rparr>)
      else None)"
| "exec proc CloserClose s =
     (if mainPc s = Gather \<and> list_all isExited (workers s) \<and> \<not> resultClosed s
      then Some (s\<lparr>resultClosed := True\<rparr>)
      else None)"
| "exec proc MainRecv s =
     (if mainPc s = Gather
      then (case resultChan s of
              [] \<Rightarrow> None
            | r # q \<Rightarrow>
                (let index1 = index s + 1;
                     idx = sint (index1 - 1)
                 in if 0 \<le> idx \<and> idx < int (length (results s))
                    then Some (s\<lparr>resultChan := q, index := index1,
                                 results := (results s)[nat idx := r]\<rparr>)
                    else Some (s\<lparr>resultChan := q, index := index1, mainPc := Panicked\<rparr>)))
      else None)"
| "exec proc MainExit s =
     (if mainPc s = Gather \<and> resultChan s = [] \<and> resultClosed s
      then Some (s\<lparr>mainPc := Finished\<rparr>)
      else None)"

definition step :: "(CSVRecord \<Rightarrow> Result) \<Rightarrow> action \<Rightarrow> dispatch \<Rightarrow> dispatch option" where
  "step proc a s = (if mainPc s = Finished \<or> mainPc s = Panicked then None else exec proc a s)"

fun run :: "(CSVRecord \<Rightarrow> Result) \<Rightarrow> action list \<Rightarrow> dispatch \<Rightarrow> dispatch option" where
  "run proc [] s = Some s"
| "run proc (a # as) s = (case step proc a s of None \<Rightarrow> None | Some s1 \<Rightarrow> run proc as s1)"

section \<open>Notions used to state the properties\<close>

text \<open>
  What the \<open>n\<close>-th call of \<open>cloneRepo\<close> returns and what it does; neither depends on
  the directories that exist.
\<close>

definition cloneOutcome :: "env \<Rightarrow> nat \<Rightarrow> string \<Rightarrow> string + string" where
  "cloneOutcome env n url = fst (cloneRepo env n url {})"

definition cloneEvents :: "env \<Rightarrow> nat \<Rightarrow> string \<Rightarrow> event list" where
  "cloneEvents env n url = snd (snd (cloneRepo env n url {}))"

text \<open>The warning of the retry loop, as the loop builds it.\<close>

definition warnEvents :: "bool \<Rightarrow> nat \<Rightarrow> string \<Rightarrow> string \<Rightarrow> event list" where
  "warnEvents quiet attempt url err =
     (if \<not> quiet
      then [LogPrintf (''[WARN] Attempt '' @ itoa attempt @ '': Failed to clone repo ''
              @ [CHR 0x27] @ url @ [CHR 0x27] @ '': '' @ err)]
      else [])"

fun isSleep :: "event \<Rightarrow> bool" where
  "isSleep (Sleep d) = True"
| "isSleep e = False"

text \<open>An event that starts a call of \<open>cloneRepo\<close>: its \<open>os.MkdirTemp\<close>.\<close>

fun isAttempt :: "event \<Rightarrow> bool" where
  "isAttempt MkdirTempFailed = True"
| "isAttempt (MkdirTempCreated d) = True"
| "isAttempt e = False"

fun isWarning :: "event \<Rightarrow> bool" where
  "isWarning (LogPrintf m) = True"
| "isWarning e = False"

text \<open>A requirement whose name is a key of \<open>providersToCheck\<close>.\<close>

definition tracked :: "ProviderVersion \<Rightarrow> bool" where
  "tracked p = (providersToCheck (ProviderName p) \<noteq> None)"

text \<open>The scratch directories that a list of events created.\<close>

definition created :: "event list \<Rightarrow> string set" where
  "created evs = {d. MkdirTempCreated d \<in> set evs}"

text \<open>
  The three categories as the specification words them: the error text holds the
  clone-stage marker, that is, the text \<open>failed to clone repo\<close> stands somewhere in
  it; some tracked provider is mapped to false; the timestamp is not empty, parses, and
  is before six months before \<open>now\<close>.
\<close>

definition unreachable :: "Result \<Rightarrow> bool" where
  "unreachable r = (\<exists>before after. Error r = before @ ''failed to clone repo'' @ after)"

definition nonCompliant :: "Result \<Rightarrow> bool" where
  "nonCompliant r = (\<exists>name. providersToCheck name \<noteq> None \<and> Compatibility r name = Some False)"

definition dormant :: "(string \<Rightarrow> Time option) \<Rightarrow> int \<Rightarrow> Time \<Rightarrow> Result \<Rightarrow> bool" where
  "dormant Parse loc now r =
     (LastCommitDate r \<noteq> [] \<and>
      (\<exists>t. Parse (LastCommitDate r) = Some t \<and> t < AddDate loc 0 (- 6) 0 now))"


text \<open>
  For the dispatcher: the results a worker holds; an upper bound on the number of steps
  that are left; and the invariant of its runs: the outcomes of the records that are
  pending, queued, held by a worker, queued as results or stored in \<open>results\<close> are
  together the outcomes of all records, and the flags follow the protocol.
\<close>

fun held :: "worker \<Rightarrow> Result list" where
  "held (Sending r) = [r]"
| "held w = []"

definition remaining :: "dispatch \<Rightarrow> nat" where
  "remaining s =
     4 * length (pending s) + 3 * length (recordChan s)
     + 2 * length (concat (map held (workers s))) + length (resultChan s)
     + length (filter (\<lambda>w. \<not> isExited w) (workers s))
     + (if mainPc s = Enqueue then 1 else 0)
     + (if resultClosed s then 0 else 1)
     + (if mainPc s = Enqueue \<or> mainPc s = Gather then 1 else 0)"

definition dispatchInv :: "(CSVRecord \<Rightarrow> Result) \<Rightarrow> CSVRecord list \<Rightarrow> nat \<Rightarrow> dispatch \<Rightarrow> bool" where
  "dispatchInv proc records W s \<longleftrightarrow>
     length (results s) = length records
   \<and> length (workers s) = W
   \<and> unat (index s) \<le> length records
   \<and> mset (map proc (pending s)) + mset (map proc (recordChan s))
       + mset (concat (map held (workers s))) + mset (resultChan s)
       + mset (take (unat (index s)) (results s)) = mset (map proc records)
   \<and> (mainPc s = Enqueue \<longrightarrow> \<not> recordClosed s \<and> \<not> resultClosed s)
   \<and> (mainPc s \<noteq> Enqueue \<longrightarrow> recordClosed s \<and> pending s = [])
   \<and> (Exited \<in> set (workers s) \<longrightarrow> recordClosed s \<and> recordChan s = [])
   \<and> (resultClosed s \<longrightarrow> list_all isExited (workers s))
   \<and> (mainPc s = Finished \<longrightarrow> resultClosed s \<and> resultChan s = [])
   \<and> mainPc s \<noteq> Panicked"

section \<open>Example inputs\<close>

definition exampleRecord :: CSVRecord where
  "exampleRecord = zeroRecord\<lparr>ModuleName := ''avm-res-example'',
     RepoURL := ''https://github.com/Azure/example''\<rparr>"

text \<open>A repository that cannot be cloned: \<open>git clone\<close> fails at every attempt.\<close>

definition envUnreachable :: env where
  "envUnreachable = \<lparr>
     MkdirTemp = (\<lambda>n. Inr (''/tmp/repo-'' @ itoa n)),
     GitClone = (\<lambda>n url dir. Some (''exit status 128'', ''fatal: repository not found'')),
     LoadModule = (\<lambda>path. Inl ''no module''),
     GitLog = (\<lambda>path. Inl ''exit status 128'')\<rparr>"

text \<open>
  A repository that is cloned at the first attempt; its module declares \<open>required\<close>
  and \<open>getLastCommitInfo\<close> returns \<open>lastCommit\<close>.
\<close>

definition envCloned :: "(string \<times> string list) list \<Rightarrow> string + (string \<times> string) \<Rightarrow> env" where
  "envCloned required lastCommit = \<lparr>
     MkdirTemp = (\<lambda>n. Inr (''/tmp/repo-'' @ itoa n)),
     GitClone = (\<lambda>n url dir. None),
     LoadModule = (\<lambda>path. Inr required),
     GitLog = (\<lambda>path. lastCommit)\<rparr>"


text \<open>
  A repository whose clone fails once and succeeds at the second attempt, and which
  holds no Terraform module.
\<close>

definition envSecondAttempt :: env where
  "envSecondAttempt = \<lparr>
     MkdirTemp = (\<lambda>n. Inr (''/tmp/repo-'' @ itoa n)),
     GitClone = (\<lambda>n url dir. if n = 1 then Some (''exit status 128'', ''fatal: timeout'')
                               else None),
     LoadModule = (\<lambda>path. Inl ''no module''),
     GitLog = (\<lambda>path. Inl ''exit status 128'')\<rparr>"

text \<open>
  An evaluation time, 2024-08-31T12:00:00Z, three timestamps with the instants they
  parse to, and an outcome with a given error, timestamp and \<open>azurerm\<close> entry.
\<close>

definition exampleNow :: Time where
  "exampleNow = 1725105600000000000"

definition exampleParse :: "string \<Rightarrow> Time option" where
  "exampleParse s =
     (if s = ''2020-01-01T00:00:00Z'' then Some 1577836800000000000
      else if s = ''2024-03-01T12:00:00Z'' then Some 1709294400000000000
      else if s = ''2024-03-03T12:00:00Z'' then Some 1709467200000000000
      else None)"

definition exampleOutcome :: "string \<Rightarrow> string \<Rightarrow> bool \<Rightarrow> Result" where
  "exampleOutcome err date ok =
     (newResult exampleRecord)\<lparr>Compatibility := [''azurerm'' \<mapsto> ok], LastCommitDate := date,
        Error := err\<rparr>"

text \<open>What the library model makes of the floor \<open>4.0.0\<close> and of the expression \<open>>=4.0.0\<close>.\<close>

definition floorFour :: GoVersion where
  "floorFour = \<lparr>metadata = [], pre = [], segments = [4, 0, 0], si = 3, original = ''4.0.0''\<rparr>"

definition atLeastFour :: "GoConstraint list" where
  "atLeastFour = [\<lparr>op = OpGreaterThanEqual, check = floorFour, coriginal = ''>=4.0.0''\<rparr>]"

text \<open>
  For the dispatcher: the pipeline on a repository that cannot be cloned, a schedule of
  two workers over two records in which the second record is finished first, and the
  state it ends in; and a list of \<open>2^31 + 1\<close> records with a schedule of one worker
  that sends, processes and gathers them in order.
\<close>

definition exampleProc :: "CSVRecord \<Rightarrow> Result" where
  "exampleProc r = fst (processRecord go_version envUnreachable r True {})"

definition exampleSchedule :: "action list" where
  "exampleSchedule =
     [MainSend, WorkerRecv 1, MainSend, WorkerRecv 0, WorkerSend 0, MainClose, WorkerExit 0,
      MainRecv, WorkerSend 1, WorkerExit 1, CloserClose, MainRecv, MainExit]"

definition exampleFinal :: dispatch where
  "exampleFinal =
     \<lparr>pending = [], mainPc = Finished, recordChan = [], recordClosed = True,
      workers = [Exited, Exited], resultChan = [], resultClosed = True, index = 2,
      results = [exampleProc zeroRecord, exampleProc exampleRecord]\<rparr>"

definition overflowSize :: nat where
  "overflowSize = 2 ^ 31 + 1"

definition overflowSchedule :: "action list" where
  "overflowSchedule =
     replicate overflowSize MainSend @ [MainClose]
     @ concat (replicate overflowSize [WorkerRecv 0, WorkerSend 0])
     @ replicate (2 ^ 31) MainRecv @ [MainRecv]"

section \<open>Properties\<close>

declare cloneLoop.simps [simp del]

subsection \<open>The retry loop\<close>

lemma fst_cloneRepo: "fst (cloneRepo env n url fs) = cloneOutcome env n url"
  by (simp add: cloneRepo_def cloneOutcome_def split: sum.splits option.splits)

lemma events_cloneRepo: "snd (snd (cloneRepo env n url fs)) = cloneEvents env n url"
  by (simp add: cloneRepo_def cloneEvents_def split: sum.splits option.splits)

lemma cloneLoop_done:
  "3 < attempt \<Longrightarrow> cloneLoop env url quiet attempt st fs evs = (st, fs, evs)"
  by (simp add: cloneLoop.simps)

lemma cloneLoop_ok:
  "attempt \<le> 3 \<Longrightarrow> cloneOutcome env attempt url = Inr p \<Longrightarrow>
   cloneLoop env url quiet attempt st fs evs =
     ((p, None), fst (snd (cloneRepo env attempt url fs)), evs @ cloneEvents env attempt url)"
  using fst_cloneRepo[of env attempt url fs] events_cloneRepo[of env attempt url fs]
  by (subst cloneLoop.simps) (auto split: prod.splits sum.splits)

lemma cloneLoop_fail:
  "attempt \<le> 3 \<Longrightarrow> cloneOutcome env attempt url = Inl e \<Longrightarrow>
   cloneLoop env url quiet attempt st fs evs =
     cloneLoop env url quiet (attempt + 1) ([], Some e)
       (fst (snd (cloneRepo env attempt url fs)))
       (evs @ cloneEvents env attempt url @ warnEvents quiet attempt url e
        @ [Sleep (2 * Second)])"
  using fst_cloneRepo[of env attempt url fs] events_cloneRepo[of env attempt url fs]
  by (subst cloneLoop.simps) (auto simp: warnEvents_def split: prod.splits sum.splits)

lemma cloneLoop_all_fail:
  assumes e1: "cloneOutcome env 1 url = Inl e1" and e2: "cloneOutcome env 2 url = Inl e2"
    and e3: "cloneOutcome env 3 url = Inl e3"
  shows "\<exists>fs'. cloneLoop env url quiet 1 st fs [] =
     (([], Some e3), fs',
      cloneEvents env 1 url @ warnEvents quiet 1 url e1 @ [Sleep (2 * Second)]
      @ cloneEvents env 2 url @ warnEvents quiet 2 url e2 @ [Sleep (2 * Second)]
      @ cloneEvents env 3 url @ warnEvents quiet 3 url e3 @ [Sleep (2 * Second)])"
proof -
  have s1: "cloneLoop env url quiet 1 st fs evs =
      cloneLoop env url quiet 2 ([], Some e1) (fst (snd (cloneRepo env 1 url fs)))
        (evs @ cloneEvents env 1 url @ warnEvents quiet 1 url e1 @ [Sleep (2 * Second)])"
    for st fs evs
    using cloneLoop_fail [OF _ e1, of quiet st fs evs] by (simp add: numeral_2_eq_2)
  have s2: "cloneLoop env url quiet 2 st fs evs =
      cloneLoop env url quiet 3 ([], Some e2) (fst (snd (cloneRepo env 2 url fs)))
        (evs @ cloneEvents env 2 url @ warnEvents quiet 2 url e2 @ [Sleep (2 * Second)])"
    for st fs evs
    using cloneLoop_fail [OF _ e2, of quiet st fs evs] by simp
  have s3: "cloneLoop env url quiet 3 st fs evs =
      cloneLoop env url quiet 4 ([], Some e3) (fst (snd (cloneRepo env 3 url fs)))
        (evs @ cloneEvents env 3 url @ warnEvents quiet 3 url e3 @ [Sleep (2 * Second)])"
    for st fs evs
    using cloneLoop_fail [OF _ e3, of quiet st fs evs] by simp
  show ?thesis
    by (subst s1, subst s2, subst s3, subst cloneLoop_done) simp_all
qed

lemma processRecord_all_fail:
  assumes "cloneOutcome env 1 (RepoURL record) = Inl e1"
    and "cloneOutcome env 2 (RepoURL record) = Inl e2"
    and "cloneOutcome env 3 (RepoURL record) = Inl e3"
  shows "fst (processRecord lib env record quiet fs) =
           (newResult record)\<lparr>Error := ''failed to clone repo '' @ [CHR 0x27] @ RepoURL record
              @ [CHR 0x27] @ '': '' @ e3\<rparr>"
    and "snd (snd (processRecord lib env record quiet fs)) =
           cloneEvents env 1 (RepoURL record) @ warnEvents quiet 1 (RepoURL record) e1
           @ [Sleep (2 * Second)]
           @ cloneEvents env 2 (RepoURL record) @ warnEvents quiet 2 (RepoURL record) e2
           @ [Sleep (2 * Second)]
           @ cloneEvents env 3 (RepoURL record) @ warnEvents quiet 3 (RepoURL record) e3
           @ [Sleep (2 * Second)]"
  using cloneLoop_all_fail [OF assms, of quiet "([], None)" fs]
  by (auto simp: processRecord_def)

lemma Contains_prefix: "Contains (sub @ rest) sub"
proof (cases "sub @ rest")
  case Nil
  then show ?thesis by simp
next
  case (Cons c s)
  have "HasPrefix (xs @ ys) xs" for xs ys :: string
    by (induction xs) auto
  then have "HasPrefix (c # s) sub"
    using Cons by metis
  then show ?thesis
    using Cons by simp
qed

lemma cloneEvents_cases:
  "cloneEvents env n url = [MkdirTempFailed]
   \<or> (\<exists>d. cloneEvents env n url = [MkdirTempCreated d, RunGitClone url d, RemoveAll d])
   \<or> (\<exists>d. cloneEvents env n url = [MkdirTempCreated d, RunGitClone url d])"
  by (auto simp: cloneEvents_def cloneRepo_def split: sum.splits option.splits)

lemma cloneEvents_filters:
  "filter isSleep (cloneEvents env n url) = []"
  "length (filter isAttempt (cloneEvents env n url)) = 1"
  "filter isWarning (cloneEvents env n url) = []"
  using cloneEvents_cases [of env n url] by auto

lemma warnEvents_filters:
  "filter isSleep (warnEvents quiet n url e) = []"
  "filter isAttempt (warnEvents quiet n url e) = []"
  "length (filter isWarning (warnEvents quiet n url e)) = (if quiet then 0 else 1)"
  by (simp_all add: warnEvents_def)

subsection \<open>Acquisition that fails at every attempt\<close>

text \<open>
  C4. When \<open>cloneRepo\<close> fails at each of the three attempts, the \<open>Result\<close> of
  \<open>processRecord\<close> has no provider entry, no entry in \<open>Compatibility\<close>, an empty
  \<open>LastCommitDate\<close> and \<open>LastCommitAuthor\<close>, and its \<open>Error\<close> is the clone-stage message
  built from the error of the third attempt: it starts with \<open>failed to clone repo\<close>,
  the text by which \<open>summarizeResults\<close> recognises an unreachable repository.
\<close>

theorem acquisition_failure_outcome:
  assumes "cloneOutcome env 1 (RepoURL record) = Inl e1"
    and "cloneOutcome env 2 (RepoURL record) = Inl e2"
    and "cloneOutcome env 3 (RepoURL record) = Inl e3"
  shows "Providers (fst (processRecord lib env record quiet fs)) = []
       \<and> Compatibility (fst (processRecord lib env record quiet fs)) = Map.empty
       \<and> LastCommitDate (fst (processRecord lib env record quiet fs)) = []
       \<and> LastCommitAuthor (fst (processRecord lib env record quiet fs)) = []
       \<and> Record (fst (processRecord lib env record quiet fs)) = record
       \<and> Error (fst (processRecord lib env record quiet fs)) =
           ''failed to clone repo '' @ [CHR 0x27] @ RepoURL record @ [CHR 0x27] @ '': '' @ e3
       \<and> Contains (Error (fst (processRecord lib env record quiet fs))) ''failed to clone repo''"
proof -
  have "Contains (''failed to clone repo'' @ ('' '' @ [CHR 0x27] @ RepoURL record @ [CHR 0x27]
          @ '': '' @ e3)) ''failed to clone repo''"
    by (rule Contains_prefix)
  then show ?thesis
    by (simp add: processRecord_all_fail(1) [OF assms] newResult_def)
qed

lemma envUnreachable_outcome:
  "cloneOutcome envUnreachable n url
     = Inl ''git clone failed: exit status 128, output: fatal: repository not found''"
  by (simp add: cloneOutcome_def cloneRepo_def envUnreachable_def)

theorem acquisition_failure_outcome_witness:
  "cloneOutcome envUnreachable 1 (RepoURL exampleRecord)
     = Inl ''git clone failed: exit status 128, output: fatal: repository not found''
   \<and> cloneOutcome envUnreachable 2 (RepoURL exampleRecord)
     = Inl ''git clone failed: exit status 128, output: fatal: repository not found''
   \<and> cloneOutcome envUnreachable 3 (RepoURL exampleRecord)
     = Inl ''git clone failed: exit status 128, output: fatal: repository not found''
   \<and> Providers (fst (processRecord go_version envUnreachable exampleRecord False {})) = []
   \<and> Compatibility (fst (processRecord go_version envUnreachable exampleRecord False {}))
       = Map.empty
   \<and> LastCommitDate (fst (processRecord go_version envUnreachable exampleRecord False {})) = []
   \<and> LastCommitAuthor (fst (processRecord go_version envUnreachable exampleRecord False {})) = []
   \<and> Error (fst (processRecord go_version envUnreachable exampleRecord False {})) =
       ''failed to clone repo '' @ [CHR 0x27] @ ''https://github.com/Azure/example'' @ [CHR 0x27]
       @ '': git clone failed: exit status 128, output: fatal: repository not found''"
  using acquisition_failure_outcome [of envUnreachable exampleRecord _ _ _ go_version False "{}",
      OF envUnreachable_outcome envUnreachable_outcome envUnreachable_outcome]
  by (simp add: envUnreachable_outcome exampleRecord_def zeroRecord_def)

subsection \<open>The sleep after the last attempt\<close>

text \<open>
  C3. When \<open>cloneRepo\<close> fails at each of the three attempts, \<open>processRecord\<close> calls it
  three times and no more, logs one warning for each failure unless \<open>quiet\<close>, and
  returns the clone-stage error with no later stage run. It sleeps two seconds after
  every failure, the third included: three times, and the last thing it does before it
  returns is to sleep, with no attempt left to wait for.
\<close>

theorem retry_sleeps_after_last_attempt:
  assumes "cloneOutcome env 1 (RepoURL record) = Inl e1"
    and "cloneOutcome env 2 (RepoURL record) = Inl e2"
    and "cloneOutcome env 3 (RepoURL record) = Inl e3"
  shows "length (filter isAttempt (snd (snd (processRecord lib env record quiet fs)))) = 3
       \<and> length (filter isWarning (snd (snd (processRecord lib env record quiet fs))))
           = (if quiet then 0 else 3)
       \<and> filter isSleep (snd (snd (processRecord lib env record quiet fs)))
           = [Sleep (2 * Second), Sleep (2 * Second), Sleep (2 * Second)]
       \<and> last (snd (snd (processRecord lib env record quiet fs))) = Sleep (2 * Second)
       \<and> Error (fst (processRecord lib env record quiet fs)) =
           ''failed to clone repo '' @ [CHR 0x27] @ RepoURL record @ [CHR 0x27] @ '': '' @ e3"
  by (simp add: processRecord_all_fail [OF assms] cloneEvents_filters warnEvents_filters
      newResult_def)

theorem retry_sleeps_after_last_attempt_witness:
  "cloneOutcome envUnreachable 1 (RepoURL exampleRecord)
     = Inl ''git clone failed: exit status 128, output: fatal: repository not found''
   \<and> cloneOutcome envUnreachable 2 (RepoURL exampleRecord)
     = Inl ''git clone failed: exit status 128, output: fatal: repository not found''
   \<and> cloneOutcome envUnreachable 3 (RepoURL exampleRecord)
     = Inl ''git clone failed: exit status 128, output: fatal: repository not found''
   \<and> filter isSleep (snd (snd (processRecord go_version envUnreachable exampleRecord False {})))
       = [Sleep 2000000000, Sleep 2000000000, Sleep 2000000000]
   \<and> last (snd (snd (processRecord go_version envUnreachable exampleRecord False {})))
       = Sleep 2000000000"
  using retry_sleeps_after_last_attempt [of envUnreachable exampleRecord _ _ _ go_version False
      "{}", OF envUnreachable_outcome envUnreachable_outcome envUnreachable_outcome]
  by (simp add: envUnreachable_outcome Second_def)

subsection \<open>The evaluation loop\<close>

lemma checkLoop_append:
  "checkLoop lib (xs @ ys) res =
     (case checkLoop lib xs res of Inl r \<Rightarrow> Inl r | Inr r \<Rightarrow> checkLoop lib ys r)"
  by (induction xs arbitrary: res) (auto split: option.splits sum.splits)

lemma checkLoop_frame:
  "checkLoop lib ps res = Inr res' \<Longrightarrow> res' = res\<lparr>Compatibility := Compatibility res'\<rparr>"
proof (induction ps arbitrary: res)
  case Nil
  then show ?case by simp
next
  case (Cons p ps)
  show ?case
  proof (cases "providersToCheck (ProviderName p)")
    case None
    with Cons show ?thesis by simp
  next
    case (Some floor)
    with Cons.prems obtain valid where
      v: "checkVersionConstraints lib floor (Version p) = Inr valid"
      by (auto split: sum.splits)
    with Some Cons.prems have
      "checkLoop lib ps (res\<lparr>Compatibility := (Compatibility res)(ProviderName p \<mapsto> valid)\<rparr>)
         = Inr res'" by simp
    from Cons.IH [OF this] show ?thesis
      by (cases res, cases res') simp
  qed
qed

lemma checkLoop_other:
  "checkLoop lib ps res = Inr res' \<Longrightarrow> \<forall>q\<in>set ps. ProviderName q \<noteq> n \<Longrightarrow>
   Compatibility res' n = Compatibility res n"
proof (induction ps arbitrary: res)
  case Nil
  then show ?case by simp
next
  case (Cons p ps)
  show ?case
  proof (cases "providersToCheck (ProviderName p)")
    case None
    with Cons show ?thesis by simp
  next
    case (Some floor)
    with Cons.prems obtain valid where
      v: "checkVersionConstraints lib floor (Version p) = Inr valid"
      by (auto split: sum.splits)
    with Some Cons.prems have
      "checkLoop lib ps (res\<lparr>Compatibility := (Compatibility res)(ProviderName p \<mapsto> valid)\<rparr>)
         = Inr res'" by simp
    from Cons.IH [OF this] Cons.prems(2) show ?thesis
      by auto
  qed
qed

lemma checkLoop_dom:
  "checkLoop lib ps res = Inr res' \<Longrightarrow>
   dom (Compatibility res') = dom (Compatibility res) \<union> {ProviderName q |q. q \<in> set ps \<and> tracked q}"
proof (induction ps arbitrary: res)
  case Nil
  then show ?case by simp
next
  case (Cons p ps)
  show ?case
  proof (cases "providersToCheck (ProviderName p)")
    case None
    with Cons show ?thesis by (auto simp: tracked_def)
  next
    case (Some floor)
    with Cons.prems obtain valid where
      v: "checkVersionConstraints lib floor (Version p) = Inr valid"
      by (auto split: sum.splits)
    with Some Cons.prems have
      "checkLoop lib ps (res\<lparr>Compatibility := (Compatibility res)(ProviderName p \<mapsto> valid)\<rparr>)
         = Inr res'" by simp
    from Cons.IH [OF this] Some show ?thesis
      by (auto simp: tracked_def split: if_splits)
  qed
qed

lemma checkLoop_last:
  assumes "checkLoop lib (before @ p # after) res = Inr res'"
    and "providersToCheck (ProviderName p) = Some floor"
    and "\<forall>q\<in>set after. ProviderName q \<noteq> ProviderName p"
  shows "\<exists>valid. checkVersionConstraints lib floor (Version p) = Inr valid
           \<and> Compatibility res' (ProviderName p) = Some valid"
proof -
  from assms(1) obtain r1 where r1: "checkLoop lib before res = Inr r1"
    and r2: "checkLoop lib (p # after) r1 = Inr res'"
    by (auto simp: checkLoop_append split: sum.splits)
  from r2 assms(2) obtain valid where
    v: "checkVersionConstraints lib floor (Version p) = Inr valid"
    and r3: "checkLoop lib after
       (r1\<lparr>Compatibility := (Compatibility r1)(ProviderName p \<mapsto> valid)\<rparr>) = Inr res'"
    by (auto split: sum.splits)
  from checkLoop_other [OF r3 assms(3)] v show ?thesis by simp
qed

lemma checkLoop_succeeds:
  "\<forall>q\<in>set ps. \<forall>floor. providersToCheck (ProviderName q) = Some floor \<longrightarrow>
      (\<exists>valid. checkVersionConstraints lib floor (Version q) = Inr valid) \<Longrightarrow>
   \<exists>res'. checkLoop lib ps res = Inr res'"
proof (induction ps arbitrary: res)
  case Nil
  then show ?case by simp
next
  case (Cons p ps)
  then show ?case
    by (cases "providersToCheck (ProviderName p)") (auto split: sum.splits)
qed

lemma checkLoop_fails:
  assumes "checkLoop lib before res = Inr resB"
    and "providersToCheck (ProviderName p) = Some floor"
    and "checkVersionConstraints lib floor (Version p) = Inl cErr"
  shows "checkLoop lib (before @ p # after) res =
     Inl (resB\<lparr>Error := ''failed to check version constraints for provider ''
            @ [CHR 0x27] @ ProviderName p @ [CHR 0x27] @ '': '' @ cErr\<rparr>)"
  using assms by (simp add: checkLoop_append)

lemma processRecord_cloned:
  assumes "cloneLoop env (RepoURL record) quiet 1 ([], None) fs [] = ((repoPath, None), fs1, evs)"
  shows "fst (processRecord lib env record quiet fs)
           = fst (afterClone lib env record quiet repoPath (newResult record))"
    and "fst (snd (processRecord lib env record quiet fs)) = fs1 - {repoPath}"
    and "snd (snd (processRecord lib env record quiet fs))
           = evs @ snd (afterClone lib env record quiet repoPath (newResult record))
               @ [RemoveAll repoPath]"
  using assms by (auto simp: processRecord_def split: prod.splits)

lemma afterClone_inspection_fails:
  assumes "parseTerraformModule env repoPath = Inr providers"
    and "checkLoop lib providers (res\<lparr>Providers := providers, Compatibility := Map.empty\<rparr>)
           = Inr res1"
    and "getLastCommitInfo env repoPath = Inl commitErr"
  shows "fst (afterClone lib env record quiet repoPath res) =
           res\<lparr>Providers := providers, Compatibility := Compatibility res1,
               Error := Error res @ '' | could not retrieve last commit info: '' @ commitErr\<rparr>"
  using assms checkLoop_frame [OF assms(2)]
  by (cases res, cases res1) (simp add: afterClone_def)

lemma afterClone_evaluation_fails:
  assumes "parseTerraformModule env repoPath = Inr (before @ p # after)"
    and "checkLoop lib before (res\<lparr>Providers := before @ p # after, Compatibility := Map.empty\<rparr>)
           = Inr resB"
    and "providersToCheck (ProviderName p) = Some floor"
    and "checkVersionConstraints lib floor (Version p) = Inl cErr"
  shows "fst (afterClone lib env record quiet repoPath res) =
           res\<lparr>Providers := before @ p # after, Compatibility := Compatibility resB,
               Error := ''failed to check version constraints for provider ''
                 @ [CHR 0x27] @ ProviderName p @ [CHR 0x27] @ '': '' @ cErr\<rparr>"
  using assms(1) checkLoop_fails [OF assms(2,3,4), of after] checkLoop_frame [OF assms(2)]
  by (cases res, cases resB) (simp add: afterClone_def)

lemma checkLoop_restart:
  "checkLoop lib ps res = Inr res1 \<Longrightarrow> Compatibility res' = Compatibility res \<Longrightarrow>
   checkLoop lib ps res' = Inr (res'\<lparr>Compatibility := Compatibility res1\<rparr>)"
proof (induction ps arbitrary: res res')
  case Nil
  then show ?case by simp
next
  case (Cons p ps)
  show ?case
  proof (cases "providersToCheck (ProviderName p)")
    case None
    with Cons show ?thesis by simp
  next
    case (Some floor)
    with Cons.prems obtain valid where
      v: "checkVersionConstraints lib floor (Version p) = Inr valid"
      by (auto split: sum.splits)
    with Some Cons.prems have
      "checkLoop lib ps (res\<lparr>Compatibility := (Compatibility res)(ProviderName p \<mapsto> valid)\<rparr>)
         = Inr res1" by simp
    from Cons.IH [OF this,
        of "res'\<lparr>Compatibility := (Compatibility res')(ProviderName p \<mapsto> valid)\<rparr>"]
      Cons.prems(2) Some v
    show ?thesis by simp
  qed
qed

lemma afterClone_compat:
  assumes "parseTerraformModule env repoPath = Inr providers"
    and "checkLoop lib providers (res\<lparr>Providers := providers, Compatibility := Map.empty\<rparr>)
           = Inr res1"
  shows "Compatibility (fst (afterClone lib env record quiet repoPath res)) = Compatibility res1"
  using assms by (simp add: afterClone_def split: sum.splits prod.splits)

subsection \<open>Inspection that fails\<close>

text \<open>
  C5. When the clone, the parse and every evaluation succeed and \<open>getLastCommitInfo\<close>
  fails, \<open>processRecord\<close> still returns the extracted providers and the
  \<open>Compatibility\<close> map that the evaluation loop built, with an entry for every tracked
  provider; \<open>LastCommitDate\<close> and \<open>LastCommitAuthor\<close> stay empty. The error is the
  previous error text followed by \<open> | could not retrieve last commit info: \<close> and the
  inspector's error: this holds for any result the stage is entered with, and since
  \<open>processRecord\<close> enters it with an empty error, its error is exactly that suffix.
\<close>

theorem inspection_failure_keeps_requirements:
  assumes "fst (cloneLoop env (RepoURL record) quiet 1 ([], None) fs []) = (repoPath, None)"
    and "parseTerraformModule env repoPath = Inr providers"
    and "checkLoop lib providers
           ((newResult record)\<lparr>Providers := providers, Compatibility := Map.empty\<rparr>) = Inr res1"
    and "getLastCommitInfo env repoPath = Inl commitErr"
  shows "Providers (fst (processRecord lib env record quiet fs)) = providers
       \<and> Compatibility (fst (processRecord lib env record quiet fs)) = Compatibility res1
       \<and> dom (Compatibility (fst (processRecord lib env record quiet fs)))
           = {ProviderName q |q. q \<in> set providers \<and> tracked q}
       \<and> LastCommitDate (fst (processRecord lib env record quiet fs)) = []
       \<and> LastCommitAuthor (fst (processRecord lib env record quiet fs)) = []
       \<and> Error (fst (processRecord lib env record quiet fs))
           = '' | could not retrieve last commit info: '' @ commitErr
       \<and> (\<forall>res. Error (fst (afterClone lib env record quiet repoPath res))
           = Error res @ '' | could not retrieve last commit info: '' @ commitErr)"
proof -
  obtain fs1 evs where
    "cloneLoop env (RepoURL record) quiet 1 ([], None) fs [] = ((repoPath, None), fs1, evs)"
    using assms(1) by (cases "cloneLoop env (RepoURL record) quiet 1 ([], None) fs []") auto
  note r = processRecord_cloned(1) [OF this, of lib]
  note a = afterClone_inspection_fails [OF assms(2) _ assms(4)]
  have "Error (fst (afterClone lib env record quiet repoPath res))
           = Error res @ '' | could not retrieve last commit info: '' @ commitErr" for res
    using a [OF checkLoop_restart [OF assms(3),
          of "res\<lparr>Providers := providers, Compatibility := Map.empty\<rparr>"], of "record" quiet]
    by simp
  moreover have "dom (Compatibility res1) = {ProviderName q |q. q \<in> set providers \<and> tracked q}"
    using checkLoop_dom [OF assms(3)] by simp
  ultimately show ?thesis
    using a [OF assms(3), of "record" quiet] by (simp add: r newResult_def)
qed

lemma envCloned_loop:
  "cloneLoop (envCloned required lastCommit) url quiet 1 st fs [] =
     ((''/tmp/repo-1'', None), insert ''/tmp/repo-1'' fs,
      [MkdirTempCreated ''/tmp/repo-1'', RunGitClone url ''/tmp/repo-1''])"
  by (subst cloneLoop.simps) (simp add: cloneRepo_def envCloned_def)

lemma azurerm_floor_in_range: "checkVersionConstraints go_version ''4.0.0'' ''>= 3.0, < 5.0'' = Inr True"
  by code_simp

theorem inspection_failure_keeps_requirements_witness:
  "fst (cloneLoop (envCloned [(''azurerm'', [''>= 3.0, < 5.0'']), (''random'', [''~> 3.0''])]
          (Inl ''failed to get last commit: exit status 128''))
        (RepoURL exampleRecord) False 1 ([], None) {} []) = (''/tmp/repo-1'', None)
   \<and> Providers (fst (processRecord go_version
        (envCloned [(''azurerm'', [''>= 3.0, < 5.0'']), (''random'', [''~> 3.0''])]
          (Inl ''failed to get last commit: exit status 128'')) exampleRecord False {}))
      = [\<lparr>ProviderName = ''azurerm'', Version = ''>= 3.0, < 5.0''\<rparr>,
         \<lparr>ProviderName = ''random'', Version = ''~> 3.0''\<rparr>]
   \<and> Compatibility (fst (processRecord go_version
        (envCloned [(''azurerm'', [''>= 3.0, < 5.0'']), (''random'', [''~> 3.0''])]
          (Inl ''failed to get last commit: exit status 128'')) exampleRecord False {}))
      = [''azurerm'' \<mapsto> True]
   \<and> Error (fst (processRecord go_version
        (envCloned [(''azurerm'', [''>= 3.0, < 5.0'']), (''random'', [''~> 3.0''])]
          (Inl ''failed to get last commit: exit status 128'')) exampleRecord False {}))
      = '' | could not retrieve last commit info: failed to get last commit: exit status 128''"
proof -
  let ?env = "envCloned [(''azurerm'', [''>= 3.0, < 5.0'']), (''random'', [''~> 3.0''])]
          (Inl ''failed to get last commit: exit status 128'')"
  let ?ps = "[\<lparr>ProviderName = ''azurerm'', Version = ''>= 3.0, < 5.0''\<rparr>,
         \<lparr>ProviderName = ''random'', Version = ''~> 3.0''\<rparr>]"
  have 1: "fst (cloneLoop ?env (RepoURL exampleRecord) False 1 ([], None) {} [])
             = (''/tmp/repo-1'', None)"
    by (simp add: envCloned_loop del: One_nat_def)
  have 2: "parseTerraformModule ?env ''/tmp/repo-1'' = Inr ?ps"
    by (simp add: parseTerraformModule_def envCloned_def)
  have 3: "checkLoop go_version ?ps
           ((newResult exampleRecord)\<lparr>Providers := ?ps, Compatibility := Map.empty\<rparr>)
         = Inr ((newResult exampleRecord)\<lparr>Providers := ?ps,
                  Compatibility := [''azurerm'' \<mapsto> True]\<rparr>)"
    by (simp add: providersToCheck_def azurerm_floor_in_range)
  have 4: "getLastCommitInfo ?env ''/tmp/repo-1''
         = Inl ''failed to get last commit: exit status 128''"
    by (simp add: getLastCommitInfo_def envCloned_def)
  show ?thesis
    using inspection_failure_keeps_requirements [OF 1 2 3 4] 1 by simp
qed

subsection \<open>Evaluation that fails\<close>

text \<open>
  C10. When the clone and the parse succeed and \<open>checkVersionConstraints\<close> fails on a
  tracked provider \<open>p\<close>, after the entries \<open>before\<close> it were evaluated with success,
  \<open>processRecord\<close> returns the evaluation-stage error for \<open>p\<close> together with the full
  list of extracted providers and the \<open>Compatibility\<close> map as the loop had built it over
  \<open>before\<close>: an entry for every tracked provider of \<open>before\<close>, none cleared.
\<close>

theorem evaluation_failure_keeps_partial_map:
  assumes "fst (cloneLoop env (RepoURL record) quiet 1 ([], None) fs []) = (repoPath, None)"
    and "parseTerraformModule env repoPath = Inr (before @ p # after)"
    and "checkLoop lib before
           ((newResult record)\<lparr>Providers := before @ p # after, Compatibility := Map.empty\<rparr>)
         = Inr resB"
    and "providersToCheck (ProviderName p) = Some floor"
    and "checkVersionConstraints lib floor (Version p) = Inl cErr"
  shows "Providers (fst (processRecord lib env record quiet fs)) = before @ p # after
       \<and> Compatibility (fst (processRecord lib env record quiet fs)) = Compatibility resB
       \<and> dom (Compatibility (fst (processRecord lib env record quiet fs)))
           = {ProviderName q |q. q \<in> set before \<and> tracked q}
       \<and> Error (fst (processRecord lib env record quiet fs))
           = ''failed to check version constraints for provider '' @ [CHR 0x27]
             @ ProviderName p @ [CHR 0x27] @ '': '' @ cErr
       \<and> LastCommitDate (fst (processRecord lib env record quiet fs)) = []
       \<and> LastCommitAuthor (fst (processRecord lib env record quiet fs)) = []"
proof -
  obtain fs1 evs where
    "cloneLoop env (RepoURL record) quiet 1 ([], None) fs [] = ((repoPath, None), fs1, evs)"
    using assms(1) by (cases "cloneLoop env (RepoURL record) quiet 1 ([], None) fs []") auto
  note r = processRecord_cloned(1) [OF this, of lib]
  have "dom (Compatibility resB) = {ProviderName q |q. q \<in> set before \<and> tracked q}"
    using checkLoop_dom [OF assms(3)] by simp
  then show ?thesis
    using afterClone_evaluation_fails [OF assms(2,3,4,5), of "record" quiet]
    by (simp add: r newResult_def)
qed

lemma azapi_floor_above_one: "checkVersionConstraints go_version ''2.0.0'' ''>= 1.0'' = Inr True"
  by code_simp

lemma azurerm_malformed_expression:
  "checkVersionConstraints go_version ''4.0.0'' ''not-a-version''
     = Inl (''failed to parse constraint '' @ [CHR 0x27] @ ''not-a-version'' @ [CHR 0x27]
            @ '': Malformed constraint: not-a-version'')"
  by code_simp

theorem evaluation_failure_keeps_partial_map_witness:
  "fst (cloneLoop (envCloned [(''azapi'', [''>= 1.0'']), (''azurerm'', [''not-a-version''])]
          (Inr (''2024-01-01T00:00:00Z'', ''someone'')))
        (RepoURL exampleRecord) False 1 ([], None) {} []) = (''/tmp/repo-1'', None)
   \<and> providersToCheck ''azurerm'' = Some ''4.0.0''
   \<and> Providers (fst (processRecord go_version
        (envCloned [(''azapi'', [''>= 1.0'']), (''azurerm'', [''not-a-version''])]
          (Inr (''2024-01-01T00:00:00Z'', ''someone''))) exampleRecord False {}))
      = [\<lparr>ProviderName = ''azapi'', Version = ''>= 1.0''\<rparr>,
         \<lparr>ProviderName = ''azurerm'', Version = ''not-a-version''\<rparr>]
   \<and> Compatibility (fst (processRecord go_version
        (envCloned [(''azapi'', [''>= 1.0'']), (''azurerm'', [''not-a-version''])]
          (Inr (''2024-01-01T00:00:00Z'', ''someone''))) exampleRecord False {}))
      = [''azapi'' \<mapsto> True]
   \<and> HasPrefix (Error (fst (processRecord go_version
        (envCloned [(''azapi'', [''>= 1.0'']), (''azurerm'', [''not-a-version''])]
          (Inr (''2024-01-01T00:00:00Z'', ''someone''))) exampleRecord False {})))
      (''failed to check version constraints for provider '' @ [CHR 0x27] @ ''azurerm''
        @ [CHR 0x27] @ '': failed to parse constraint '' @ [CHR 0x27] @ ''not-a-version''
        @ [CHR 0x27] @ '': '')"
proof -
  let ?env = "envCloned [(''azapi'', [''>= 1.0'']), (''azurerm'', [''not-a-version''])]
          (Inr (''2024-01-01T00:00:00Z'', ''someone''))"
  let ?p1 = "\<lparr>ProviderName = ''azapi'', Version = ''>= 1.0''\<rparr>"
  let ?p2 = "\<lparr>ProviderName = ''azurerm'', Version = ''not-a-version''\<rparr>"
  have 1: "fst (cloneLoop ?env (RepoURL exampleRecord) False 1 ([], None) {} [])
             = (''/tmp/repo-1'', None)"
    by (simp add: envCloned_loop del: One_nat_def)
  have 2: "parseTerraformModule ?env ''/tmp/repo-1'' = Inr ([?p1] @ ?p2 # [])"
    by (simp add: parseTerraformModule_def envCloned_def)
  have 3: "checkLoop go_version [?p1]
           ((newResult exampleRecord)\<lparr>Providers := [?p1] @ ?p2 # [],
              Compatibility := Map.empty\<rparr>)
         = Inr ((newResult exampleRecord)\<lparr>Providers := [?p1] @ ?p2 # [],
                  Compatibility := [''azapi'' \<mapsto> True]\<rparr>)"
    by (simp add: providersToCheck_def azapi_floor_above_one)
  have 4: "providersToCheck (ProviderName ?p2) = Some ''4.0.0''"
    by (simp add: providersToCheck_def)
  have 5: "checkVersionConstraints go_version ''4.0.0'' (Version ?p2)
     = Inl (''failed to parse constraint '' @ [CHR 0x27] @ ''not-a-version'' @ [CHR 0x27]
            @ '': Malformed constraint: not-a-version'')"
    using azurerm_malformed_expression by simp
  show ?thesis
    using evaluation_failure_keeps_partial_map [OF 1 2 3 4 5] 1 4 by simp
qed

subsection \<open>Several expressions for one provider\<close>

lemma concat_split_required:
  assumes "(name, cs) \<in> set required" and "distinct (map fst required)" and "cs \<noteq> []"
  shows "\<exists>before after.
     concat (map (\<lambda>(providerName, constraints).
         map (\<lambda>constraint. \<lparr>ProviderName = providerName, Version = constraint\<rparr>)
           constraints) required)
       = before @ \<lparr>ProviderName = name, Version = last cs\<rparr> # after
     \<and> (\<forall>q\<in>set after. ProviderName q \<noteq> name)"
proof -
  let ?mk = "\<lambda>(providerName, constraints).
         map (\<lambda>constraint. \<lparr>ProviderName = providerName, Version = constraint\<rparr>)
           constraints"
  from assms(1) obtain B A where req: "required = B @ (name, cs) # A"
    by (auto simp: in_set_conv_decomp)
  with assms(2) have notA: "name \<notin> fst ` set A" by auto
  have cs: "cs = butlast cs @ [last cs]" using assms(3) by simp
  have "?mk (name, cs) = map (\<lambda>c. \<lparr>ProviderName = name, Version = c\<rparr>) (butlast cs)
          @ [\<lparr>ProviderName = name, Version = last cs\<rparr>]"
    by (subst cs) simp
  then have "concat (map ?mk required)
      = (concat (map ?mk B) @ map (\<lambda>c. \<lparr>ProviderName = name, Version = c\<rparr>) (butlast cs))
        @ \<lparr>ProviderName = name, Version = last cs\<rparr> # concat (map ?mk A)"
    by (simp add: req)
  moreover have "\<forall>q\<in>set (concat (map ?mk A)). ProviderName q \<noteq> name"
    using notA by force
  ultimately show ?thesis by blast
qed

text \<open>
  C9. When the module declares the expressions \<open>constraints\<close> for the tracked provider
  \<open>name\<close> (the names of \<open>RequiredProviders\<close> are the keys of a Go map, hence distinct)
  and every tracked expression evaluates, the entry of \<open>Compatibility\<close> for \<open>name\<close> is the
  result of the last expression alone: each evaluation overwrites the entry. In the
  example after the theorem the module declares \<open>< 4.0.0\<close> and then \<open>>= 3.0.0\<close> for
  \<open>azurerm\<close>: the first is false for the floor, the second true, and the map holds
  \<open>True\<close>, not their conjunction.
\<close>

theorem compatibility_holds_last_expression:
  assumes "fst (cloneLoop env (RepoURL record) quiet 1 ([], None) fs []) = (repoPath, None)"
    and "LoadModule env repoPath = Inr required"
    and "distinct (map fst required)"
    and "(name, constraints) \<in> set required"
    and "constraints \<noteq> []"
    and "providersToCheck name = Some floor"
    and "\<forall>(n, cs)\<in>set required. \<forall>c\<in>set cs. \<forall>fl. providersToCheck n = Some fl \<longrightarrow>
           (\<exists>b. checkVersionConstraints lib fl c = Inr b)"
  shows "\<exists>valid. checkVersionConstraints lib floor (last constraints) = Inr valid
           \<and> Compatibility (fst (processRecord lib env record quiet fs)) name = Some valid"
proof -
  let ?ps = "concat (map (\<lambda>(providerName, constraints).
         map (\<lambda>constraint. \<lparr>ProviderName = providerName, Version = constraint\<rparr>)
           constraints) required)"
  let ?res0 = "(newResult record)\<lparr>Providers := ?ps, Compatibility := Map.empty\<rparr>"
  obtain fs1 evs where
    "cloneLoop env (RepoURL record) quiet 1 ([], None) fs [] = ((repoPath, None), fs1, evs)"
    using assms(1) by (cases "cloneLoop env (RepoURL record) quiet 1 ([], None) fs []") auto
  note r = processRecord_cloned(1) [OF this, of lib]
  have parse: "parseTerraformModule env repoPath = Inr ?ps"
    using assms(2) by (simp add: parseTerraformModule_def)
  have "\<forall>q\<in>set ?ps. \<forall>fl. providersToCheck (ProviderName q) = Some fl \<longrightarrow>
      (\<exists>valid. checkVersionConstraints lib fl (Version q) = Inr valid)"
    using assms(7) by fastforce
  from checkLoop_succeeds [OF this] obtain res1 where
    loop: "checkLoop lib ?ps ?res0 = Inr res1" by blast
  from concat_split_required [OF assms(4,3,5)] obtain before after where
    split: "?ps = before @ \<lparr>ProviderName = name, Version = last constraints\<rparr> # after"
    and after: "\<forall>q\<in>set after. ProviderName q \<noteq> name"
    by blast
  have "\<exists>valid. checkVersionConstraints lib floor
            (Version \<lparr>ProviderName = name, Version = last constraints\<rparr>) = Inr valid
          \<and> Compatibility res1 (ProviderName \<lparr>ProviderName = name, Version = last constraints\<rparr>)
              = Some valid"
    using loop assms(6) after unfolding split
    by (intro checkLoop_last) simp_all
  then show ?thesis
    using afterClone_compat [OF parse loop, of "record" quiet] by (simp add: r)
qed

lemma azurerm_floor_not_below_four:
  "checkVersionConstraints go_version ''4.0.0'' ''< 4.0.0'' = Inr False"
  by code_simp

lemma azurerm_floor_above_three:
  "checkVersionConstraints go_version ''4.0.0'' ''>= 3.0.0'' = Inr True"
  by code_simp

theorem compatibility_holds_last_expression_witness:
  "fst (cloneLoop (envCloned [(''azurerm'', [''< 4.0.0'', ''>= 3.0.0''])]
          (Inr (''2024-01-01T00:00:00Z'', ''someone'')))
        (RepoURL exampleRecord) True 1 ([], None) {} []) = (''/tmp/repo-1'', None)
   \<and> distinct (map fst [(''azurerm'', [''< 4.0.0'', ''>= 3.0.0''])])
   \<and> providersToCheck ''azurerm'' = Some ''4.0.0''
   \<and> checkVersionConstraints go_version ''4.0.0'' ''< 4.0.0'' = Inr False
   \<and> checkVersionConstraints go_version ''4.0.0'' ''>= 3.0.0'' = Inr True
   \<and> Compatibility (fst (processRecord go_version
        (envCloned [(''azurerm'', [''< 4.0.0'', ''>= 3.0.0''])]
          (Inr (''2024-01-01T00:00:00Z'', ''someone''))) exampleRecord True {})) ''azurerm''
      = Some True"
proof -
  let ?req = "[(''azurerm'', [''< 4.0.0'', ''>= 3.0.0''])]"
  let ?env = "envCloned ?req (Inr (''2024-01-01T00:00:00Z'', ''someone''))"
  have 1: "fst (cloneLoop ?env (RepoURL exampleRecord) True 1 ([], None) {} [])
             = (''/tmp/repo-1'', None)"
    by (simp add: envCloned_loop del: One_nat_def)
  have 2: "LoadModule ?env ''/tmp/repo-1'' = Inr ?req"
    by (simp add: envCloned_def)
  have 3: "distinct (map fst ?req)" by simp
  have 4: "(''azurerm'', [''< 4.0.0'', ''>= 3.0.0'']) \<in> set ?req" by simp
  have 5: "[''< 4.0.0'', ''>= 3.0.0''] \<noteq> []" by simp
  have 6: "providersToCheck ''azurerm'' = Some ''4.0.0''"
    by (simp add: providersToCheck_def)
  have 7: "\<forall>(n, cs)\<in>set ?req. \<forall>c\<in>set cs. \<forall>fl. providersToCheck n = Some fl \<longrightarrow>
           (\<exists>b. checkVersionConstraints go_version fl c = Inr b)"
    by (auto simp add: providersToCheck_def azurerm_floor_not_below_four
        azurerm_floor_above_three)
  show ?thesis
    using compatibility_holds_last_expression [OF 1 2 3 4 5 6 7] 1 6
      azurerm_floor_not_below_four azurerm_floor_above_three
    by auto
qed

subsection \<open>Scratch directories\<close>

lemma created_simps [simp]:
  "created [] = {}"
  "created (MkdirTempCreated d # evs) = insert d (created evs)"
  "created (MkdirTempFailed # evs) = created evs"
  "created (RunGitClone u d # evs) = created evs"
  "created (RemoveAll d # evs) = created evs"
  "created (LogPrintf m # evs) = created evs"
  "created (Sleep n # evs) = created evs"
  "created (evs @ evs') = created evs \<union> created evs'"
  by (auto simp: created_def)

lemma created_warnEvents [simp]: "created (warnEvents quiet n url e) = {}"
  by (simp add: warnEvents_def)

lemma cloneRepo_scratch:
  "cloneRepo env n url fs = (Inl e, fs1, ev1) \<Longrightarrow> fs1 \<subseteq> fs \<and> created ev1 \<inter> fs1 = {}"
  "cloneRepo env n url fs = (Inr p, fs1, ev1) \<Longrightarrow> fs1 = insert p fs \<and> created ev1 = {p}"
  by (auto simp: cloneRepo_def split: sum.splits option.splits)

lemma cloneLoop_scratch:
  assumes "cloneLoop env url quiet attempt st fs evs = ((p, err), fs', evs')"
    and "created evs \<inter> fs = {}"
  shows "created evs' \<inter> fs' \<subseteq> (if err = None \<and> attempt \<le> 3 then {p} else {})
       \<and> fs' \<subseteq> (if err = None \<and> attempt \<le> 3 then insert p fs else fs)"
  using assms
proof (induction "4 - attempt" arbitrary: attempt st fs evs)
  case 0
  then show ?case by (auto simp: cloneLoop_done)
next
  case (Suc k)
  then have le: "attempt \<le> 3" and k: "k = 4 - (attempt + 1)" by auto
  obtain r fs1 ev1 where c: "cloneRepo env attempt url fs = (r, fs1, ev1)"
    by (cases "cloneRepo env attempt url fs") auto
  show ?case
  proof (cases r)
    case (Inr q)
    with c have o: "cloneOutcome env attempt url = Inr q"
      using fst_cloneRepo [of env attempt url fs] by simp
    from cloneLoop_ok [OF le o, of quiet st fs evs] Suc.prems(1) c
    have "p = q" "err = None" "fs' = fs1" "evs' = evs @ cloneEvents env attempt url"
      by auto
    moreover have "cloneEvents env attempt url = ev1"
      using events_cloneRepo [of env attempt url fs] c by simp
    ultimately show ?thesis
      using cloneRepo_scratch(2) [OF c [unfolded Inr]] Suc.prems(2) le by auto
  next
    case (Inl e)
    with c have o: "cloneOutcome env attempt url = Inl e"
      using fst_cloneRepo [of env attempt url fs] by simp
    have ev: "cloneEvents env attempt url = ev1"
      using events_cloneRepo [of env attempt url fs] c by simp
    from cloneRepo_scratch(1) [OF c [unfolded Inl]] have s: "fs1 \<subseteq> fs" "created ev1 \<inter> fs1 = {}"
      by auto
    have next_call: "cloneLoop env url quiet (attempt + 1) ([], Some e) fs1
        (evs @ ev1 @ warnEvents quiet attempt url e @ [Sleep (2 * Second)]) = ((p, err), fs', evs')"
      using cloneLoop_fail [OF le o, of quiet st fs evs] Suc.prems(1) c ev by simp
    have inv: "created (evs @ ev1 @ warnEvents quiet attempt url e @ [Sleep (2 * Second)]) \<inter> fs1 = {}"
      using s Suc.prems(2) by auto
    have res: "created evs' \<inter> fs' \<subseteq> (if err = None \<and> attempt + 1 \<le> 3 then {p} else {})
       \<and> fs' \<subseteq> (if err = None \<and> attempt + 1 \<le> 3 then insert p fs1 else fs1)"
      by (rule Suc.hyps(1) [OF k next_call inv])
    show ?thesis
      using res s(1) le by (auto split: if_splits)
  qed
qed

lemma afterClone_events: "created (snd (afterClone lib env record quiet repoPath res)) = {}"
  by (auto simp: afterClone_def split: sum.splits prod.splits)

lemma processRecord_scratch:
  "created (snd (snd (processRecord lib env record quiet fs)))
     \<inter> fst (snd (processRecord lib env record quiet fs)) = {}"
  "fst (snd (processRecord lib env record quiet fs)) \<subseteq> fs"
proof -
  obtain p err fs1 evs where
    l: "cloneLoop env (RepoURL record) quiet 1 ([], None) fs [] = ((p, err), fs1, evs)"
    by (cases "cloneLoop env (RepoURL record) quiet 1 ([], None) fs []") auto
  from cloneLoop_scratch [OF l] have
    s: "created evs \<inter> fs1 \<subseteq> (if err = None then {p} else {})"
       "fs1 \<subseteq> (if err = None then insert p fs else fs)"
    by simp_all
  show "created (snd (snd (processRecord lib env record quiet fs)))
     \<inter> fst (snd (processRecord lib env record quiet fs)) = {}"
  proof (cases err)
    case None
    with l s show ?thesis
      using processRecord_cloned(2,3) [of env "record" quiet fs p fs1 evs lib]
      by (auto simp: afterClone_events)
  next
    case (Some e)
    with l s show ?thesis
      by (auto simp: processRecord_def)
  qed
  show "fst (snd (processRecord lib env record quiet fs)) \<subseteq> fs"
  proof (cases err)
    case None
    with l s show ?thesis
      using processRecord_cloned(2) [of env "record" quiet fs p fs1 evs lib]
      by auto
  next
    case (Some e)
    with l s show ?thesis
      by (auto simp: processRecord_def)
  qed
qed

text \<open>
  C7. No scratch directory outlives the call that made it. A call of \<open>cloneRepo\<close> that
  returns an error has removed the directory it created. After \<open>processRecord\<close>, no
  directory that any of its attempts created exists: those of failed attempts were
  removed by \<open>cloneRepo\<close>, that of the successful attempt by the deferred
  \<open>os.RemoveAll\<close>, whichever later stage failed; and no directory exists that did not
  exist before. (\<open>os.RemoveAll\<close> is taken to remove the directory; the code ignores
  its error.)
\<close>

theorem no_scratch_location_remains:
  "(\<forall>e. fst (cloneRepo env n url fs) = Inl e \<longrightarrow>
      (\<forall>d. MkdirTempCreated d \<in> set (snd (snd (cloneRepo env n url fs)))
         \<longrightarrow> d \<notin> fst (snd (cloneRepo env n url fs))))
   \<and> (\<forall>d. MkdirTempCreated d \<in> set (snd (snd (processRecord lib env record quiet fs)))
         \<longrightarrow> d \<notin> fst (snd (processRecord lib env record quiet fs)))
   \<and> fst (snd (processRecord lib env record quiet fs)) \<subseteq> fs"
proof -
  have "\<forall>d. MkdirTempCreated d \<in> set (snd (snd (cloneRepo env n url fs)))
         \<longrightarrow> d \<notin> fst (snd (cloneRepo env n url fs))"
    if "fst (cloneRepo env n url fs) = Inl e" for e
    using that cloneRepo_scratch(1) [of env n url fs e "fst (snd (cloneRepo env n url fs))"
        "snd (snd (cloneRepo env n url fs))"]
    by (cases "cloneRepo env n url fs") (auto simp: created_def)
  then show ?thesis
    using processRecord_scratch [of lib env "record" quiet fs]
    by (auto simp: created_def)
qed

lemma envSecondAttempt_run:
  "processRecord go_version envSecondAttempt exampleRecord False {} =
     ((newResult exampleRecord)\<lparr>Error :=
         ''failed to parse Terraform module: failed to load module: no module''\<rparr>,
      {},
      [MkdirTempCreated ''/tmp/repo-1'',
       RunGitClone ''https://github.com/Azure/example'' ''/tmp/repo-1'',
       RemoveAll ''/tmp/repo-1'',
       LogPrintf (''[WARN] Attempt 1: Failed to clone repo '' @ [CHR 0x27]
         @ ''https://github.com/Azure/example'' @ [CHR 0x27]
         @ '': git clone failed: exit status 128, output: fatal: timeout''),
       Sleep 2000000000,
       MkdirTempCreated ''/tmp/repo-2'',
       RunGitClone ''https://github.com/Azure/example'' ''/tmp/repo-2'',
       RemoveAll ''/tmp/repo-2''])"
proof -
  have 1: "cloneOutcome envSecondAttempt 1 url
      = Inl ''git clone failed: exit status 128, output: fatal: timeout''" for url
    by (simp add: cloneOutcome_def cloneRepo_def envSecondAttempt_def)
  have 2: "cloneOutcome envSecondAttempt 2 url = Inr ''/tmp/repo-2''" for url
    by (simp add: cloneOutcome_def cloneRepo_def envSecondAttempt_def)
  have l: "cloneLoop envSecondAttempt url False 1 ([], None) {} [] =
     ((''/tmp/repo-2'', None), {''/tmp/repo-2''},
      cloneEvents envSecondAttempt 1 url
      @ warnEvents False 1 url ''git clone failed: exit status 128, output: fatal: timeout''
      @ [Sleep (2 * Second)] @ cloneEvents envSecondAttempt 2 url)" for url
    using cloneLoop_fail [of 1 envSecondAttempt url _ False "([], None)" "{}" "[]", OF _ 1]
      cloneLoop_ok [of 2 envSecondAttempt url _ False, OF _ 2]
    by (simp add: numeral_2_eq_2 cloneRepo_def envSecondAttempt_def)
  have ce1: "cloneEvents envSecondAttempt 1 url
      = [MkdirTempCreated ''/tmp/repo-1'', RunGitClone url ''/tmp/repo-1'',
         RemoveAll ''/tmp/repo-1'']" for url
    by (simp add: cloneEvents_def cloneRepo_def envSecondAttempt_def)
  have ce2: "cloneEvents envSecondAttempt 2 url
      = [MkdirTempCreated ''/tmp/repo-2'', RunGitClone url ''/tmp/repo-2'']" for url
    by (simp add: cloneEvents_def cloneRepo_def envSecondAttempt_def)
  have parse: "parseTerraformModule envSecondAttempt path
      = Inl ''failed to load module: no module''" for path
    by (simp add: parseTerraformModule_def envSecondAttempt_def)
  have url: "RepoURL exampleRecord = ''https://github.com/Azure/example''"
    by (simp add: exampleRecord_def)
  show ?thesis
    by (simp add: processRecord_def l ce1 ce2 afterClone_def parse url warnEvents_def
        Second_def del: One_nat_def)
qed

theorem no_scratch_location_remains_witness:
  "MkdirTempCreated ''/tmp/repo-1''
     \<in> set (snd (snd (processRecord go_version envSecondAttempt exampleRecord False {})))
   \<and> MkdirTempCreated ''/tmp/repo-2''
     \<in> set (snd (snd (processRecord go_version envSecondAttempt exampleRecord False {})))
   \<and> ''/tmp/repo-1'' \<notin> fst (snd (processRecord go_version envSecondAttempt exampleRecord False {}))
   \<and> ''/tmp/repo-2'' \<notin> fst (snd (processRecord go_version envSecondAttempt exampleRecord False {}))
   \<and> fst (cloneRepo envSecondAttempt 1 ''https://github.com/Azure/example'' {})
       = Inl ''git clone failed: exit status 128, output: fatal: timeout''
   \<and> MkdirTempCreated ''/tmp/repo-1''
       \<in> set (snd (snd (cloneRepo envSecondAttempt 1 ''https://github.com/Azure/example'' {})))
   \<and> ''/tmp/repo-1'' \<notin> fst (snd (cloneRepo envSecondAttempt 1 ''https://github.com/Azure/example'' {}))"
proof -
  have a: "MkdirTempCreated ''/tmp/repo-1''
     \<in> set (snd (snd (processRecord go_version envSecondAttempt exampleRecord False {})))"
    and b: "MkdirTempCreated ''/tmp/repo-2''
     \<in> set (snd (snd (processRecord go_version envSecondAttempt exampleRecord False {})))"
    by (simp_all add: envSecondAttempt_run)
  have c: "fst (cloneRepo envSecondAttempt 1 ''https://github.com/Azure/example'' {})
       = Inl ''git clone failed: exit status 128, output: fatal: timeout''"
    and d: "MkdirTempCreated ''/tmp/repo-1''
       \<in> set (snd (snd (cloneRepo envSecondAttempt 1 ''https://github.com/Azure/example'' {})))"
    by (simp_all add: cloneRepo_def envSecondAttempt_def)
  show ?thesis
    using no_scratch_location_remains [of envSecondAttempt 1
        "''https://github.com/Azure/example''" "{}" go_version exampleRecord False] a b c d
    by blast
qed

subsection \<open>The summary\<close>

lemma tracked_names:
  "providersToCheck name \<noteq> None \<longleftrightarrow> name = ''azurerm'' \<or> name = ''azapi''"
  by (simp add: providersToCheck_def)

lemma nonCompliant_code:
  "nonCompliant r \<longleftrightarrow>
     Compatibility r ''azurerm'' = Some False \<or> Compatibility r ''azapi'' = Some False"
  unfolding nonCompliant_def tracked_names by blast

lemma Date_days:
  "Date loc year month (day + days) inDay = Date loc year month day inDay + days * nsPerDay"
  unfolding Date_def Let_def by (simp add: distrib_right left_diff_distrib)

lemma AddDate_days:
  "AddDate loc years months days t = AddDate loc years months 0 t + days * nsPerDay"
  unfolding AddDate_def Let_def by (simp add: Date_days split: prod.splits)


lemma HasPrefix_iff: "HasPrefix s p \<longleftrightarrow> (\<exists>rest. s = p @ rest)"
  by (induction s p rule: HasPrefix.induct) auto

lemma Contains_iff: "Contains s sub \<longleftrightarrow> (\<exists>before after. s = before @ sub @ after)"
proof (induction s)
  case Nil
  then show ?case by simp
next
  case (Cons c s)
  have "(\<exists>before after. c # s = before @ sub @ after)
      \<longleftrightarrow> (\<exists>after. c # s = sub @ after) \<or> (\<exists>before after. s = before @ sub @ after)"
    by (auto simp: Cons_eq_append_conv)
  then show ?case
    using Cons.IH by (simp add: HasPrefix_iff del: HasPrefix.simps)
qed

lemma unreachable_code: "unreachable r \<longleftrightarrow> Contains (Error r) ''failed to clone repo''"
  unfolding unreachable_def Contains_iff ..

lemma summarizeLoop_step:
  "summarizeLoop Parse (AddDate loc 0 (- 6) 0 now) (r # rs) (u, n, d) =
     summarizeLoop Parse (AddDate loc 0 (- 6) 0 now) rs
       (u + (if unreachable r then 1 else 0),
        n + (if nonCompliant r then 1 else 0),
        d + (if dormant Parse loc now r then 1 else 0))"
proof -
  have n: "(case (case Compatibility r ''azurerm'' of None \<Rightarrow> (False, False) | Some b \<Rightarrow> (b, True)) of
        (azurermStatus, hasAzurerm) \<Rightarrow>
          case (case Compatibility r ''azapi'' of None \<Rightarrow> (False, False) | Some b \<Rightarrow> (b, True)) of
            (azapiStatus, hasAzapi) \<Rightarrow> f ((hasAzurerm \<and> \<not> azurermStatus) \<or> (hasAzapi \<and> \<not> azapiStatus)))
      = f (nonCompliant r)" for f :: "bool \<Rightarrow> 'a"
    unfolding nonCompliant_code
    by (cases "Compatibility r ''azurerm''"; cases "Compatibility r ''azapi''") auto
  have d: "(if LastCommitDate r \<noteq> [] then
               (case Parse (LastCommitDate r) of
                  Some t \<Rightarrow> if Before t (AddDate loc 0 (- 6) 0 now) then d + 1 else d
                | None \<Rightarrow> d)
             else d) = d + (if dormant Parse loc now r then 1 else 0)"
    by (cases "Parse (LastCommitDate r)") (auto simp: dormant_def Before_def)
  show ?thesis
    unfolding summarizeLoop.simps Let_def unreachable_code [symmetric] d
    by (subst n) simp
qed

lemma summarizeLoop_counts:
  "summarizeLoop Parse (AddDate loc 0 (- 6) 0 now) rs (u, n, d) =
     (u + int (length (filter unreachable rs)),
      n + int (length (filter nonCompliant rs)),
      d + int (length (filter (dormant Parse loc now) rs)))"
proof (induction rs arbitrary: u n d)
  case Nil
  then show ?case by simp
next
  case (Cons r rs)
  show ?case
    unfolding summarizeLoop_step Cons.IH by simp
qed






lemma later_stage_text:
  "[] \<noteq> ''failed to clone repo '' @ y"
  "''failed to parse Terraform module: '' @ x \<noteq> ''failed to clone repo '' @ y"
  "''failed to check version constraints for provider '' @ x \<noteq> ''failed to clone repo '' @ y"
  "'' | could not retrieve last commit info: '' @ x \<noteq> ''failed to clone repo '' @ y"
  by simp_all







lemma exampleNow_six_months_ago:
  "AddDate 0 0 (- 6) 0 exampleNow = 1709380800000000000"
  by code_simp



text \<open>
  C6. The dormant count is the number of outcomes whose \<open>LastCommitDate\<close> is not empty,
  parses, and is strictly before \<open>now.AddDate(0, -6, 0)\<close>. A timestamp one day after
  that instant (\<open>now.AddDate(0, -6, 1)\<close>, six months minus one day before \<open>now\<close>) is not
  dormant, one a day before it (\<open>now.AddDate(0, -6, -1)\<close>) is dormant, and the instant
  itself is not dormant.
\<close>

theorem dormant_threshold:
  "snd (snd (summarizeResults Parse loc now outcomes))
     = int (length (filter (dormant Parse loc now) outcomes))
   \<and> (dormant Parse loc now r \<longleftrightarrow>
        LastCommitDate r \<noteq> [] \<and>
        (\<exists>t. Parse (LastCommitDate r) = Some t \<and> Before t (AddDate loc 0 (- 6) 0 now)))
   \<and> (LastCommitDate r \<noteq> [] \<and> Parse (LastCommitDate r) = Some (AddDate loc 0 (- 6) 1 now)
        \<longrightarrow> \<not> dormant Parse loc now r)
   \<and> (LastCommitDate r \<noteq> [] \<and> Parse (LastCommitDate r) = Some (AddDate loc 0 (- 6) (- 1) now)
        \<longrightarrow> dormant Parse loc now r)
   \<and> (Parse (LastCommitDate r) = Some (AddDate loc 0 (- 6) 0 now)
        \<longrightarrow> \<not> dormant Parse loc now r)"
proof -
  have "snd (snd (summarizeResults Parse loc now outcomes))
     = int (length (filter (dormant Parse loc now) outcomes))"
    unfolding summarizeResults_def Let_def summarizeLoop_counts by simp
  moreover have "AddDate loc 0 (- 6) 1 now = AddDate loc 0 (- 6) 0 now + nsPerDay"
    using AddDate_days [of loc 0 "- 6" 1 now] by simp
  moreover have "AddDate loc 0 (- 6) (- 1) now = AddDate loc 0 (- 6) 0 now - nsPerDay"
    using AddDate_days [of loc 0 "- 6" "- 1" now] by simp
  moreover have "0 < nsPerDay"
    by (simp add: nsPerDay_def nsPerSecond_def)
  ultimately show ?thesis
    by (simp add: dormant_def Before_def)
qed

theorem dormant_threshold_witness:
  "exampleParse ''2024-03-03T12:00:00Z'' = Some (AddDate 0 0 (- 6) 1 exampleNow)
   \<and> exampleParse ''2024-03-01T12:00:00Z'' = Some (AddDate 0 0 (- 6) (- 1) exampleNow)
   \<and> \<not> dormant exampleParse 0 exampleNow (exampleOutcome [] ''2024-03-03T12:00:00Z'' True)
   \<and> dormant exampleParse 0 exampleNow (exampleOutcome [] ''2024-03-01T12:00:00Z'' True)
   \<and> snd (snd (summarizeResults exampleParse 0 exampleNow
        [exampleOutcome [] ''2024-03-03T12:00:00Z'' True,
         exampleOutcome [] ''2024-03-01T12:00:00Z'' True,
         exampleOutcome [] [] True])) = 1"
proof -
  let ?r1 = "exampleOutcome [] ''2024-03-03T12:00:00Z'' True"
  let ?r2 = "exampleOutcome [] ''2024-03-01T12:00:00Z'' True"
  let ?r3 = "exampleOutcome [] [] True"
  have a: "exampleParse ''2024-03-03T12:00:00Z'' = Some (AddDate 0 0 (- 6) 1 exampleNow)"
    using AddDate_days [of 0 0 "- 6" 1 exampleNow]
    by (simp add: exampleNow_six_months_ago exampleParse_def nsPerDay_def nsPerSecond_def)
  have b: "exampleParse ''2024-03-01T12:00:00Z'' = Some (AddDate 0 0 (- 6) (- 1) exampleNow)"
    using AddDate_days [of 0 0 "- 6" "- 1" exampleNow]
    by (simp add: exampleNow_six_months_ago exampleParse_def nsPerDay_def nsPerSecond_def)
  have a': "LastCommitDate ?r1 \<noteq> []
      \<and> exampleParse (LastCommitDate ?r1) = Some (AddDate 0 0 (- 6) 1 exampleNow)"
    using a by (simp add: exampleOutcome_def)
  have b': "LastCommitDate ?r2 \<noteq> []
      \<and> exampleParse (LastCommitDate ?r2) = Some (AddDate 0 0 (- 6) (- 1) exampleNow)"
    using b by (simp add: exampleOutcome_def)
  have c: "\<not> dormant exampleParse 0 exampleNow ?r1"
    using dormant_threshold [of exampleParse 0 exampleNow "[]" ?r1] a' by blast
  have d: "dormant exampleParse 0 exampleNow ?r2"
    using dormant_threshold [of exampleParse 0 exampleNow "[]" ?r2] b' by blast
  have e: "\<not> dormant exampleParse 0 exampleNow ?r3"
    by (simp add: dormant_def exampleOutcome_def)
  have "snd (snd (summarizeResults exampleParse 0 exampleNow [?r1, ?r2, ?r3]))
      = int (length (filter (dormant exampleParse 0 exampleNow) [?r1, ?r2, ?r3]))"
    using dormant_threshold [of exampleParse 0 exampleNow "[?r1, ?r2, ?r3]" ?r3] by blast
  also have "\<dots> = 1"
    by (simp add: c d e)
  finally show ?thesis
    using a b c d by blast
qed

subsection \<open>The constraint evaluator\<close>

lemma newVersion_floorFour: "NewVersion go_version ''4.0.0'' = Inr floorFour"
  by code_simp

lemma newConstraint_atLeastFour: "NewConstraint go_version ''>=4.0.0'' = Inr atLeastFour"
  by code_simp

lemma check_atLeastFour: "Check go_version atLeastFour floorFour = True"
  by code_simp

lemma azurerm_floor_at_least_four:
  "checkVersionConstraints go_version ''4.0.0'' ''>=4.0.0'' = Inr True"
  by code_simp

lemma azurerm_floor_not_pessimistic_three:
  "checkVersionConstraints go_version ''4.0.0'' ''~>3.0'' = Inr False"
  by code_simp

lemma expression_is_no_version:
  "checkVersionConstraints go_version ''>=4.0.0'' ''4.0.0''
     = Inl (''failed to parse version '' @ [CHR 0x27] @ ''>=4.0.0'' @ [CHR 0x27]
            @ '': malformed version: >=4.0.0'')"
  by code_simp

text \<open>
  C2. \<open>checkVersionConstraints\<close> parses its first argument as the version and its second
  as the constraint, and returns whether the constraint admits the version;
  \<open>processRecord\<close> passes the floor of \<open>providersToCheck\<close> first and the declared
  expression second, so the entry stored for a provider says whether the declared
  expression admits the floor. An expression that does not parse gives the error
  \<open>failed to parse constraint\<close>. With the library model: the floor \<open>4.0.0\<close> gives true
  on \<open>>=4.0.0\<close>, false on \<open>~>3.0\<close> and an error on \<open>not-a-version\<close>; with the two
  arguments exchanged, \<open>>=4.0.0\<close> is not a version and the call fails.
\<close>

theorem constraint_evaluator_direction:
  "(NewVersion lib floor = Inr ver \<and> NewConstraint lib expr = Inr c
      \<longrightarrow> checkVersionConstraints lib floor expr = Inr (Check lib c ver))
   \<and> (providersToCheck (ProviderName p) = Some floor \<and> NewVersion lib floor = Inr ver
        \<and> NewConstraint lib (Version p) = Inr c
      \<longrightarrow> checkLoop lib [p] res
            = Inr (res\<lparr>Compatibility := (Compatibility res)(ProviderName p \<mapsto> Check lib c ver)\<rparr>))
   \<and> (NewVersion lib floor = Inr ver \<and> NewConstraint lib expr = Inl err
      \<longrightarrow> checkVersionConstraints lib floor expr
            = Inl (''failed to parse constraint '' @ [CHR 0x27] @ expr @ [CHR 0x27] @ '': '' @ err))
   \<and> checkVersionConstraints go_version ''4.0.0'' ''>=4.0.0'' = Inr True
   \<and> checkVersionConstraints go_version ''4.0.0'' ''~>3.0'' = Inr False
   \<and> (\<exists>e. checkVersionConstraints go_version ''4.0.0'' ''not-a-version''
         = Inl (''failed to parse constraint '' @ [CHR 0x27] @ ''not-a-version'' @ [CHR 0x27]
                @ '': '' @ e))
   \<and> (\<exists>e. checkVersionConstraints go_version ''>=4.0.0'' ''4.0.0''
         = Inl (''failed to parse version '' @ [CHR 0x27] @ ''>=4.0.0'' @ [CHR 0x27]
                @ '': '' @ e))"
proof -
  have 1: "NewVersion lib floor = Inr ver \<and> NewConstraint lib expr = Inr c
      \<longrightarrow> checkVersionConstraints lib floor expr = Inr (Check lib c ver)" for expr
    by (simp add: checkVersionConstraints_def)
  have 2: "providersToCheck (ProviderName p) = Some floor \<and> NewVersion lib floor = Inr ver
        \<and> NewConstraint lib (Version p) = Inr c
      \<longrightarrow> checkLoop lib [p] res
            = Inr (res\<lparr>Compatibility := (Compatibility res)(ProviderName p \<mapsto> Check lib c ver)\<rparr>)"
    using 1 [of "Version p"] by auto
  have 3: "NewVersion lib floor = Inr ver \<and> NewConstraint lib expr = Inl err
      \<longrightarrow> checkVersionConstraints lib floor expr
            = Inl (''failed to parse constraint '' @ [CHR 0x27] @ expr @ [CHR 0x27] @ '': '' @ err)"
    by (simp add: checkVersionConstraints_def)
  have 4: "\<exists>e. checkVersionConstraints go_version ''4.0.0'' ''not-a-version''
         = Inl (''failed to parse constraint '' @ [CHR 0x27] @ ''not-a-version'' @ [CHR 0x27]
                @ '': '' @ e)"
    unfolding azurerm_malformed_expression by simp
  have 5: "\<exists>e. checkVersionConstraints go_version ''>=4.0.0'' ''4.0.0''
         = Inl (''failed to parse version '' @ [CHR 0x27] @ ''>=4.0.0'' @ [CHR 0x27]
                @ '': '' @ e)"
    unfolding expression_is_no_version by simp
  show ?thesis
    using 1 [of expr] 2 3 4 5 azurerm_floor_at_least_four azurerm_floor_not_pessimistic_three
    by blast
qed

theorem constraint_evaluator_direction_witness:
  "NewVersion go_version ''4.0.0'' = Inr floorFour
   \<and> NewConstraint go_version ''>=4.0.0'' = Inr atLeastFour
   \<and> providersToCheck ''azurerm'' = Some ''4.0.0''
   \<and> checkVersionConstraints go_version ''4.0.0'' ''>=4.0.0'' = Inr True
   \<and> checkLoop go_version [\<lparr>ProviderName = ''azurerm'', Version = ''>=4.0.0''\<rparr>]
        (newResult exampleRecord)
      = Inr ((newResult exampleRecord)\<lparr>Compatibility := [''azurerm'' \<mapsto> True]\<rparr>)"
proof -
  let ?p = "\<lparr>ProviderName = ''azurerm'', Version = ''>=4.0.0''\<rparr>"
  have t: "providersToCheck (ProviderName ?p) = Some ''4.0.0''"
    by (simp add: providersToCheck_def)
  have c: "NewConstraint go_version (Version ?p) = Inr atLeastFour"
    using newConstraint_atLeastFour by simp
  have "checkVersionConstraints go_version ''4.0.0'' ''>=4.0.0''
          = Inr (Check go_version atLeastFour floorFour)"
    and "checkLoop go_version [?p] (newResult exampleRecord)
      = Inr ((newResult exampleRecord)\<lparr>Compatibility :=
          (Compatibility (newResult exampleRecord))
            (ProviderName ?p \<mapsto> Check go_version atLeastFour floorFour)\<rparr>)"
    using constraint_evaluator_direction [of go_version "''4.0.0''" floorFour "''>=4.0.0''"
        atLeastFour ?p "newResult exampleRecord"]
      newVersion_floorFour newConstraint_atLeastFour t c
    by blast+
  then show ?thesis
    using newVersion_floorFour newConstraint_atLeastFour t
    by (simp add: check_atLeastFour newResult_def)
qed

subsection \<open>The dispatcher\<close>

lemma isReceiving_iff [simp]: "isReceiving w \<longleftrightarrow> w = Receiving"
  by (cases w) auto

lemma isExited_iff [simp]: "isExited w \<longleftrightarrow> w = Exited"
  by (cases w) auto

lemma upd_split:
  "i < length ws \<Longrightarrow> \<exists>xs ys. ws = xs @ ws ! i # ys \<and> ws[i := w] = xs @ w # ys"
  by (metis id_take_nth_drop upd_conv_take_nth_drop)

lemma step_remaining:
  assumes "step proc a s = Some s1"
  shows "remaining s1 < remaining s"
proof -
  from assms have pc: "mainPc s \<noteq> Finished" "mainPc s \<noteq> Panicked" and e: "exec proc a s = Some s1"
    by (auto simp: step_def split: if_splits)
  show ?thesis
  proof (cases a)
    case MainSend
    with e show ?thesis
      by (auto simp: remaining_def split: list.splits if_splits)
  next
    case MainClose
    with e show ?thesis
      by (auto simp: remaining_def split: list.splits if_splits)
  next
    case (WorkerRecv i)
    with e obtain r q where i: "i < length (workers s)" "workers s ! i = Receiving"
      and q: "recordChan s = r # q"
      and s1: "s1 = s\<lparr>recordChan := q, workers := (workers s)[i := Sending (proc r)]\<rparr>"
      by (auto split: list.splits if_splits)
    from upd_split [OF i(1), of "Sending (proc r)"] i(2) obtain xs ys where
      "workers s = xs @ Receiving # ys" "(workers s)[i := Sending (proc r)] = xs @ Sending (proc r) # ys"
      by auto
    then show ?thesis
      using q s1 by (simp add: remaining_def)
  next
    case (WorkerSend i)
    with e obtain r where i: "i < length (workers s)" "workers s ! i = Sending r"
      and s1: "s1 = s\<lparr>resultChan := resultChan s @ [r], workers := (workers s)[i := Receiving]\<rparr>"
      by (auto split: worker.splits if_splits)
    from upd_split [OF i(1), of Receiving] i(2) obtain xs ys where
      "workers s = xs @ Sending r # ys" "(workers s)[i := Receiving] = xs @ Receiving # ys"
      by auto
    then show ?thesis
      using s1 by (simp add: remaining_def)
  next
    case (WorkerExit i)
    with e have i: "i < length (workers s)" "workers s ! i = Receiving"
      and s1: "s1 = s\<lparr>workers := (workers s)[i := Exited]\<rparr>"
      by (auto split: if_splits)
    from upd_split [OF i(1), of Exited] i(2) obtain xs ys where
      "workers s = xs @ Receiving # ys" "(workers s)[i := Exited] = xs @ Exited # ys"
      by auto
    then show ?thesis
      using s1 by (simp add: remaining_def)
  next
    case CloserClose
    with e show ?thesis
      by (auto simp: remaining_def split: list.splits if_splits)
  next
    case MainRecv
    with e show ?thesis
      by (auto simp: remaining_def Let_def split: list.splits if_splits)
  next
    case MainExit
    with e show ?thesis
      by (auto simp: remaining_def split: list.splits if_splits)
  qed
qed

lemma run_remaining:
  "run proc sched s = Some s1 \<Longrightarrow> length sched + remaining s1 \<le> remaining s"
proof (induction sched arbitrary: s)
  case Nil
  then show ?case by simp
next
  case (Cons a sched)
  then obtain s2 where a: "step proc a s = Some s2" and r: "run proc sched s2 = Some s1"
    by (auto split: option.splits)
  from Cons.IH [OF r] step_remaining [OF a] show ?case by simp
qed

lemma remaining_init: "remaining (init records numWorkers) = 4 * length records + numWorkers + 3"
  by (simp add: remaining_def init_def)

lemma sint_small: "unat (w :: 32 word) < 2 ^ 31 \<Longrightarrow> sint w = int (unat w)"
proof -
  assume a: "unat w < 2 ^ 31"
  have u: "uint w = int (unat w)" by simp
  have "int (unat w) < 2 ^ 31"
    using a by (metis of_nat_less_iff of_nat_numeral of_nat_power)
  then have "- (2 ^ 31) \<le> uint w" "uint w < 2 ^ 31"
    using u by linarith+
  then have "signed_take_bit 31 (uint w) = uint w"
    by (rule signed_take_bit_int_eq_self)
  moreover have "sint w = signed_take_bit 31 (uint w)"
    by (simp add: sint_uint)
  ultimately show ?thesis using u by linarith
qed

lemma sint_big: "2 ^ 31 \<le> unat (w :: 32 word) \<Longrightarrow> sint w < 0"
proof -
  assume a: "2 ^ 31 \<le> unat w"
  have u: "uint w = int (unat w)" by simp
  have s: "sint w = signed_take_bit 31 (uint w)"
    by (simp add: sint_uint)
  have "(2::int) ^ 31 \<le> int (unat w)"
    using a by (metis of_nat_le_iff of_nat_numeral of_nat_power)
  then have "(2::int) ^ 31 \<le> uint w"
    using u by linarith
  then have "signed_take_bit 31 (uint w) \<le> uint w - 2 ^ Suc 31"
    by (rule signed_take_bit_int_less_eq)
  moreover have "uint w < 2 ^ Suc 31"
    using uint_lt2p [of w] by simp
  ultimately show ?thesis
    using s by linarith
qed

lemma unat_succ: "unat (w :: 32 word) < 2 ^ 31 \<Longrightarrow> unat (w + 1) = Suc (unat w)"
proof -
  assume a: "unat w < 2 ^ 31"
  have "unat w + unat (1 :: 32 word) < 2 ^ LENGTH(32)"
    using a by simp
  then have "unat (w + 1) = unat w + unat (1 :: 32 word)"
    by (simp only: unat_add_lem)
  then show ?thesis by simp
qed

lemma inv_init: "dispatchInv proc records W (init records W)"
  by (simp add: dispatchInv_def init_def)

lemma held_replicate [simp]: "concat (map held (replicate n Receiving)) = []"
  by (induction n) auto

lemma inv_size:
  assumes "dispatchInv proc records W s"
  shows "length (pending s) + length (recordChan s) + length (concat (map held (workers s)))
         + length (resultChan s) + unat (index s) = length records"
proof -
  from assms have eq: "mset (map proc (pending s)) + mset (map proc (recordChan s))
       + mset (concat (map held (workers s))) + mset (resultChan s)
       + mset (take (unat (index s)) (results s)) = mset (map proc records)"
    and k: "unat (index s) \<le> length records" and l: "length (results s) = length records"
    by (auto simp: dispatchInv_def)
  from arg_cong [OF eq, of size] k l show ?thesis
    by (simp add: min_absorb2)
qed

lemma inv_step:
  assumes i: "dispatchInv proc records W s" and n: "length records \<le> 2 ^ 31"
    and st: "step proc a s = Some s1"
  shows "dispatchInv proc records W s1"
proof -
  from st have e: "exec proc a s = Some s1"
    by (auto simp: step_def split: if_splits)
  note sz = inv_size [OF i]
  show ?thesis
  proof (cases a)
    case MainSend
    with e obtain r rs where "pending s = r # rs" "mainPc s = Enqueue"
      "s1 = s\<lparr>pending := rs, recordChan := recordChan s @ [r]\<rparr>"
      by (auto split: list.splits if_splits)
    with i show ?thesis
      by (auto simp: dispatchInv_def)
  next
    case MainClose
    with e have "mainPc s = Enqueue" "pending s = []"
      "s1 = s\<lparr>recordClosed := True, mainPc := Gather\<rparr>"
      by (auto split: if_splits)
    with i show ?thesis
      by (auto simp: dispatchInv_def)
  next
    case (WorkerRecv j)
    with e obtain r q where j: "j < length (workers s)" "workers s ! j = Receiving"
      and q: "recordChan s = r # q"
      and s1: "s1 = s\<lparr>recordChan := q, workers := (workers s)[j := Sending (proc r)]\<rparr>"
      by (auto split: list.splits if_splits)
    define ws1 where "ws1 = (workers s)[j := Sending (proc r)]"
    from upd_split [OF j(1), of "Sending (proc r)"] j(2) obtain xs ys where
      w: "workers s = xs @ Receiving # ys" "ws1 = xs @ Sending (proc r) # ys"
      unfolding ws1_def by auto
    note s1 = s1 [folded ws1_def]
    from i q w(1) have noex: "Exited \<notin> set xs" "Exited \<notin> set ys" "\<not> resultClosed s"
      by (auto simp: dispatchInv_def)
    with i show ?thesis
      unfolding s1 by (auto simp: dispatchInv_def q w)
  next
    case (WorkerSend j)
    with e obtain r where j: "j < length (workers s)" "workers s ! j = Sending r"
      and s1: "s1 = s\<lparr>resultChan := resultChan s @ [r], workers := (workers s)[j := Receiving]\<rparr>"
      by (auto split: worker.splits if_splits)
    define ws1 where "ws1 = (workers s)[j := Receiving]"
    from upd_split [OF j(1), of Receiving] j(2) obtain xs ys where
      w: "workers s = xs @ Sending r # ys" "ws1 = xs @ Receiving # ys"
      unfolding ws1_def by auto
    note s1 = s1 [folded ws1_def]
    from i w(1) have "\<not> resultClosed s"
      by (auto simp: dispatchInv_def)
    with i show ?thesis
      unfolding s1 by (auto simp: dispatchInv_def w)
  next
    case (WorkerExit j)
    with e have j: "j < length (workers s)" "workers s ! j = Receiving"
      and c: "recordChan s = []" "recordClosed s"
      and s1: "s1 = s\<lparr>workers := (workers s)[j := Exited]\<rparr>"
      by (auto split: if_splits)
    define ws1 where "ws1 = (workers s)[j := Exited]"
    from upd_split [OF j(1), of Exited] j(2) obtain xs ys where
      w: "workers s = xs @ Receiving # ys" "ws1 = xs @ Exited # ys"
      unfolding ws1_def by auto
    note s1 = s1 [folded ws1_def]
    from i w(1) have "\<not> resultClosed s"
      by (auto simp: dispatchInv_def)
    with i c show ?thesis
      unfolding s1 by (auto simp: dispatchInv_def w)
  next
    case CloserClose
    with e have "mainPc s = Gather" "list_all isExited (workers s)"
      "s1 = s\<lparr>resultClosed := True\<rparr>"
      by (auto split: if_splits)
    with i show ?thesis
      by (auto simp: dispatchInv_def)
  next
    case MainRecv
    with e obtain r q where g: "mainPc s = Gather" and q: "resultChan s = r # q"
      by (auto split: list.splits if_splits)
    define k where "k = unat (index s)"
    from sz q have k: "k < length records" by (simp add: k_def)
    with n have k31: "k < 2 ^ 31" by simp
    have idx: "sint (index s + 1 - 1) = int k"
      using sint_small [of "index s"] k31 by (simp add: k_def)
    have k1: "unat (index s + 1) = Suc k"
      unfolding k_def by (rule unat_succ [OF k31 [unfolded k_def]])
    from i have l: "length (results s) = length records"
      by (simp add: dispatchInv_def)
    have cond: "0 \<le> sint (index s + 1 - 1) \<and> sint (index s + 1 - 1) < int (length (results s))"
      unfolding idx using k l by simp
    have pos: "nat (sint (index s + 1 - 1)) = k"
      unfolding idx by simp
    have "exec proc MainRecv s = Some (s\<lparr>resultChan := q, index := index s + 1,
        results := (results s)[nat (sint (index s + 1 - 1)) := r]\<rparr>)"
      using g q cond by (simp add: Let_def)
    then have s1: "s1 = s\<lparr>resultChan := q, index := index s + 1, results := (results s)[k := r]\<rparr>"
      using e MainRecv unfolding pos by simp
    have t: "take (Suc k) ((results s)[k := r]) = take k (results s) @ [r]"
      using k l by (simp add: take_Suc_conv_app_nth)
    from i show ?thesis
      unfolding s1 using k g q by (auto simp: dispatchInv_def k1 t) (simp_all add: k_def)
  next
    case MainExit
    with e have "mainPc s = Gather" "resultChan s = []" "resultClosed s"
      "s1 = s\<lparr>mainPc := Finished\<rparr>"
      by (auto split: if_splits)
    with i show ?thesis
      by (auto simp: dispatchInv_def)
  qed
qed

lemma inv_run:
  "dispatchInv proc records W s \<Longrightarrow> length records \<le> 2 ^ 31 \<Longrightarrow> run proc sched s = Some s1 \<Longrightarrow>
   dispatchInv proc records W s1"
proof (induction sched arbitrary: s)
  case Nil
  then show ?case by simp
next
  case (Cons a sched)
  then obtain s2 where a: "step proc a s = Some s2" and r: "run proc sched s2 = Some s1"
    by (auto split: option.splits)
  from Cons.IH [OF inv_step [OF Cons.prems(1,2) a] Cons.prems(2) r] show ?case .
qed

lemma inv_finished:
  assumes i: "dispatchInv proc records W s" and w: "1 \<le> W" and f: "mainPc s = Finished"
  shows "mset (results s) = mset (map proc records)"
proof -
  from i f have c: "resultClosed s" "resultChan s = []" "pending s = []"
    and ex: "list_all isExited (workers s)" and lw: "length (workers s) = W"
    by (auto simp: dispatchInv_def)
  from ex have all: "\<forall>x\<in>set (workers s). x = Exited"
    by (simp add: list_all_iff)
  from lw w obtain x where "x \<in> set (workers s)"
    by (cases "workers s") auto
  with all have "Exited \<in> set (workers s)" by auto
  with i have rc: "recordChan s = []"
    by (simp add: dispatchInv_def)
  have h: "concat (map held (workers s)) = []"
    using all by (induction "workers s") (auto simp: concat_eq_Nil_conv)
  from inv_size [OF i] c rc h have k: "unat (index s) = length records" by simp
  from i have "length (results s) = length records"
    by (simp add: dispatchInv_def)
  with i c rc h k show ?thesis
    by (simp add: dispatchInv_def)
qed

lemma inv_progress:
  assumes i: "dispatchInv proc records W s" and f: "mainPc s \<noteq> Finished"
  shows "\<exists>a s1. step proc a s = Some s1"
proof -
  from i have np: "mainPc s \<noteq> Panicked" and l: "length (results s) = length records"
    by (auto simp: dispatchInv_def)
  note sz = inv_size [OF i]
  have st: "step proc a s = exec proc a s" for a
    using f np by (simp add: step_def)
  show ?thesis
  proof (cases "mainPc s")
    case Enqueue
    show ?thesis
    proof (cases "pending s")
      case Nil
      with Enqueue have "step proc MainClose s \<noteq> None" by (simp add: st)
      then show ?thesis by blast
    next
      case (Cons r rs)
      with sz l have "length (recordChan s) < length (results s)" by simp
      with Cons Enqueue have "step proc MainSend s \<noteq> None" by (simp add: st)
      then show ?thesis by blast
    qed
  next
    case Gather
    show ?thesis
    proof (cases "resultChan s")
      case (Cons r q)
      with Gather have "step proc MainRecv s \<noteq> None" by (simp add: st Let_def)
      then show ?thesis by blast
    next
      case Nil
      show ?thesis
      proof (cases "resultClosed s")
        case True
        with Nil Gather have "step proc MainExit s \<noteq> None" by (simp add: st)
        then show ?thesis by blast
      next
        case False
        show ?thesis
        proof (cases "list_all isExited (workers s)")
          case True
          with False Gather have "step proc CloserClose s \<noteq> None" by (simp add: st)
          then show ?thesis by blast
        next
          case nall: False
          then obtain j where j: "j < length (workers s)" "workers s ! j \<noteq> Exited"
            by (auto simp: list_all_length)
          from i Gather have rc: "recordClosed s" by (simp add: dispatchInv_def)
          show ?thesis
          proof (cases "workers s ! j")
            case Receiving
            show ?thesis
            proof (cases "recordChan s")
              case Nil
              with Receiving j rc have "step proc (WorkerExit j) s \<noteq> None" by (simp add: st)
              then show ?thesis by blast
            next
              case (Cons r q)
              with Receiving j have "step proc (WorkerRecv j) s \<noteq> None" by (simp add: st)
              then show ?thesis by blast
            qed
          next
            case (Sending r)
            from upd_split [OF j(1), of Receiving] Sending obtain xs ys where
              "workers s = xs @ Sending r # ys" by auto
            with sz have "0 < length records" by auto
            with Nil l Sending j have "step proc (WorkerSend j) s \<noteq> None" by (simp add: st)
            then show ?thesis by blast
          next
            case Exited
            with j show ?thesis by simp
          qed
        qed
      qed
    qed
  next
    case Finished
    with f show ?thesis by simp
  next
    case Panicked
    with np show ?thesis by simp
  qed
qed

lemma run_append:
  "run proc (xs @ ys) s = (case run proc xs s of None \<Rightarrow> None | Some s1 \<Rightarrow> run proc ys s1)"
  by (induction xs arbitrary: s) (auto split: option.splits)

lemma run_sends:
  "mainPc s = Enqueue \<Longrightarrow> length (recordChan s) + length (pending s) \<le> length (results s) \<Longrightarrow>
   run proc (replicate (length (pending s)) MainSend) s
     = Some (s\<lparr>pending := [], recordChan := recordChan s @ pending s\<rparr>)"
proof (induction "pending s" arbitrary: s)
  case Nil
  then show ?case by simp
next
  case (Cons r rs)
  let ?s1 = "s\<lparr>pending := rs, recordChan := recordChan s @ [r]\<rparr>"
  from Cons.hyps(2) [symmetric] Cons.prems have st: "step proc MainSend s = Some ?s1"
    by (simp add: step_def)
  have "run proc (replicate (length (pending ?s1)) MainSend) ?s1
     = Some (?s1\<lparr>pending := [], recordChan := recordChan ?s1 @ pending ?s1\<rparr>)"
    using Cons.hyps(2) [symmetric] Cons.prems by (intro Cons.hyps(1)) simp_all
  then show ?case
    using st Cons.hyps(2) [symmetric] by simp
qed

lemma run_worker:
  "mainPc s = Gather \<Longrightarrow> workers s = [Receiving] \<Longrightarrow>
   length (resultChan s) + length (recordChan s) \<le> length (results s) \<Longrightarrow>
   run proc (concat (replicate (length (recordChan s)) [WorkerRecv 0, WorkerSend 0])) s
     = Some (s\<lparr>recordChan := [], resultChan := resultChan s @ map proc (recordChan s)\<rparr>)"
proof (induction "recordChan s" arbitrary: s)
  case Nil
  then show ?case by simp
next
  case (Cons r q)
  let ?s1 = "s\<lparr>recordChan := q, workers := [Sending (proc r)]\<rparr>"
  let ?s2 = "s\<lparr>recordChan := q, resultChan := resultChan s @ [proc r]\<rparr>"
  from Cons.hyps(2) [symmetric] Cons.prems have st1: "step proc (WorkerRecv 0) s = Some ?s1"
    by (simp add: step_def)
  have "?s1\<lparr>resultChan := resultChan ?s1 @ [proc r], workers := [Receiving]\<rparr> = ?s2"
    using Cons.prems(2) by (cases s) simp
  with Cons.hyps(2) [symmetric] Cons.prems have st2: "step proc (WorkerSend 0) ?s1 = Some ?s2"
    by (simp add: step_def)
  have "run proc (concat (replicate (length (recordChan ?s2)) [WorkerRecv 0, WorkerSend 0])) ?s2
     = Some (?s2\<lparr>recordChan := [], resultChan := resultChan ?s2 @ map proc (recordChan ?s2)\<rparr>)"
    using Cons.hyps(2) [symmetric] Cons.prems by (intro Cons.hyps(1)) simp_all
  then show ?case
    using st1 st2 Cons.hyps(2) [symmetric] by simp
qed

lemma run_gather:
  "mainPc s = Gather \<Longrightarrow> n \<le> length (resultChan s) \<Longrightarrow> unat (index s) + n \<le> 2 ^ 31 \<Longrightarrow>
   unat (index s) + n \<le> length (results s) \<Longrightarrow>
   \<exists>s1. run proc (replicate n MainRecv) s = Some s1 \<and> mainPc s1 = Gather
      \<and> resultChan s1 = drop n (resultChan s) \<and> unat (index s1) = unat (index s) + n
      \<and> length (results s1) = length (results s)"
proof (induction n arbitrary: s)
  case 0
  then show ?case by simp
next
  case (Suc n)
  then obtain r q where q: "resultChan s = r # q"
    by (cases "resultChan s") auto
  define k where "k = unat (index s)"
  from Suc.prems have k31: "k < 2 ^ 31" and kl: "k < length (results s)"
    by (simp_all add: k_def)
  have idx: "sint (index s + 1 - 1) = int k"
    using sint_small [of "index s"] k31 by (simp add: k_def)
  have k1: "unat (index s + 1) = Suc k"
    unfolding k_def by (rule unat_succ [OF k31 [unfolded k_def]])
  have cond: "0 \<le> sint (index s + 1 - 1) \<and> sint (index s + 1 - 1) < int (length (results s))"
    unfolding idx using kl by simp
  let ?s1 = "s\<lparr>resultChan := q, index := index s + 1,
        results := (results s)[nat (sint (index s + 1 - 1)) := r]\<rparr>"
  have st: "step proc MainRecv s = Some ?s1"
    using Suc.prems(1) q cond by (simp add: step_def Let_def)
  have "\<exists>s2. run proc (replicate n MainRecv) ?s1 = Some s2 \<and> mainPc s2 = Gather
      \<and> resultChan s2 = drop n (resultChan ?s1) \<and> unat (index s2) = unat (index ?s1) + n
      \<and> length (results s2) = length (results ?s1)"
    using Suc.prems q k1 by (intro Suc.IH) (simp_all add: k_def)
  then show ?case
    using st q k1 by (auto simp: k_def)
qed

lemma step_panic:
  assumes "mainPc s = Gather" and "resultChan s \<noteq> []" and "unat (index s) = 2 ^ 31"
  shows "\<exists>s1. step proc MainRecv s = Some s1 \<and> mainPc s1 = Panicked"
proof -
  from assms(2) obtain r q where q: "resultChan s = r # q"
    by (cases "resultChan s") auto
  have "sint (index s) < 0"
    using sint_big [of "index s"] assms(3) by simp
  then have "\<not> (0 \<le> sint (index s + 1 - 1) \<and> sint (index s + 1 - 1) < int (length (results s)))"
    by simp
  then show ?thesis
    using assms(1) q by (simp add: step_def Let_def)
qed

lemma overflow_run:
  "\<exists>s. run proc overflowSchedule (init (replicate overflowSize r0) 1) = Some s
      \<and> mainPc s = Panicked"
proof -
  let ?recs = "replicate overflowSize r0"
  let ?s0 = "init ?recs 1"
  let ?s1 = "?s0\<lparr>pending := [], recordChan := recordChan ?s0 @ pending ?s0\<rparr>"
  let ?s2 = "?s1\<lparr>recordClosed := True, mainPc := Gather\<rparr>"
  let ?s3 = "?s2\<lparr>recordChan := [], resultChan := resultChan ?s2 @ map proc (recordChan ?s2)\<rparr>"
  have n: "overflowSize = Suc (2 ^ 31)"
    by (simp add: overflowSize_def)
  have 1: "run proc (replicate overflowSize MainSend) ?s0 = Some ?s1"
    using run_sends [of ?s0 proc] by (simp add: init_def)
  have 2: "step proc MainClose ?s1 = Some ?s2"
    by (simp add: step_def init_def)
  have 3: "run proc (concat (replicate overflowSize [WorkerRecv 0, WorkerSend 0])) ?s2 = Some ?s3"
    using run_worker [of ?s2 proc] by (simp add: init_def)
  have "\<exists>s4. run proc (replicate (2 ^ 31) MainRecv) ?s3 = Some s4 \<and> mainPc s4 = Gather
      \<and> resultChan s4 = drop (2 ^ 31) (resultChan ?s3) \<and> unat (index s4) = unat (index ?s3) + 2 ^ 31
      \<and> length (results s4) = length (results ?s3)"
    by (rule run_gather) (simp_all add: init_def n)
  then obtain s4 where 4: "run proc (replicate (2 ^ 31) MainRecv) ?s3 = Some s4"
    and g: "mainPc s4 = Gather" and rc: "resultChan s4 = drop (2 ^ 31) (resultChan ?s3)"
    and ix: "unat (index s4) = unat (index ?s3) + 2 ^ 31"
    by blast
  have "length (resultChan s4) = 1"
    unfolding rc by (simp add: init_def n)
  then have ne: "resultChan s4 \<noteq> []" by auto
  have "unat (index s4) = 2 ^ 31"
    unfolding ix by (simp add: init_def)
  from step_panic [OF g ne this, of proc] obtain s5 where
    5: "step proc MainRecv s4 = Some s5" and p: "mainPc s5 = Panicked" by blast
  have "run proc overflowSchedule ?s0 = Some s5"
    unfolding overflowSchedule_def run_append 1 using 2 3 4 5
    by (simp add: run_append)
  with p show ?thesis by blast
qed

lemma checkLoop_Record:
  "checkLoop lib ps res = Inl res1 \<or> checkLoop lib ps res = Inr res1 \<Longrightarrow> Record res1 = Record res"
proof (induction ps arbitrary: res)
  case Nil
  then show ?case by auto
next
  case (Cons p ps)
  show ?case
  proof (cases "providersToCheck (ProviderName p)")
    case None
    with Cons show ?thesis by simp
  next
    case (Some floor)
    show ?thesis
    proof (cases "checkVersionConstraints lib floor (Version p)")
      case (Inl cErr)
      with Some Cons.prems show ?thesis by auto
    next
      case (Inr valid)
      with Some Cons.prems have
        "checkLoop lib ps (res\<lparr>Compatibility := (Compatibility res)(ProviderName p \<mapsto> valid)\<rparr>)
           = Inl res1
         \<or> checkLoop lib ps (res\<lparr>Compatibility := (Compatibility res)(ProviderName p \<mapsto> valid)\<rparr>)
           = Inr res1" by simp
      from Cons.IH [OF this] show ?thesis by simp
    qed
  qed
qed

lemma afterClone_Record:
  "Record (fst (afterClone lib env record quiet repoPath res)) = Record res"
proof (cases "parseTerraformModule env repoPath")
  case (Inl e)
  then show ?thesis by (simp add: afterClone_def)
next
  case (Inr providers)
  let ?res0 = "res\<lparr>Providers := providers, Compatibility := Map.empty\<rparr>"
  show ?thesis
  proof (cases "checkLoop lib providers ?res0")
    case (Inl res1)
    with checkLoop_Record [of lib providers ?res0 res1] Inr show ?thesis
      by (simp add: afterClone_def)
  next
    case r: (Inr res1)
    with checkLoop_Record [of lib providers ?res0 res1] Inr show ?thesis
      by (simp add: afterClone_def split: sum.splits prod.splits)
  qed
qed

lemma processRecord_Record:
  "Record (fst (processRecord lib env record quiet fs)) = record"
proof -
  obtain p err fs1 evs where
    l: "cloneLoop env (RepoURL record) quiet 1 ([], None) fs [] = ((p, err), fs1, evs)"
    by (cases "cloneLoop env (RepoURL record) quiet 1 ([], None) fs []") auto
  show ?thesis
  proof (cases err)
    case None
    with l processRecord_cloned(1) [of env "record" quiet fs p fs1 evs lib] show ?thesis
      by (simp add: afterClone_Record newResult_def)
  next
    case (Some e)
    with l show ?thesis
      by (simp add: processRecord_def newResult_def)
  qed
qed

text \<open>
  For at least one worker and at most \<open>2^31\<close> records, every state that a schedule
  reaches has a \<open>results\<close> slice of the length of the input and no panic; if the main
  goroutine has finished, \<open>results\<close> holds exactly the outcomes of the records, one for
  each, in some order; if it has not, some goroutine can take a step (no deadlock);
  and no schedule is longer than \<open>4 * len(records) + numWorkers + 3\<close> steps, so every
  run ends, and ends finished.
\<close>

theorem dispatcher_one_outcome_per_item:
  assumes "1 \<le> numWorkers" and "length records \<le> 2 ^ 31"
    and "run proc sched (init records numWorkers) = Some s"
  shows "length (results s) = length records
       \<and> mainPc s \<noteq> Panicked
       \<and> (mainPc s = Finished \<longrightarrow> mset (results s) = mset (map proc records))
       \<and> (mainPc s = Finished \<longrightarrow> (\<forall>r. Record (proc r) = r)
            \<longrightarrow> mset (map Record (results s)) = mset records)
       \<and> (mainPc s \<noteq> Finished \<longrightarrow> (\<exists>a s1. step proc a s = Some s1))
       \<and> length sched \<le> 4 * length records + numWorkers + 3"
proof -
  have i: "dispatchInv proc records numWorkers s"
    by (rule inv_run [OF inv_init assms(2,3)])
  have fin: "mset (results s) = mset (map proc records)" if "mainPc s = Finished"
    by (rule inv_finished [OF i assms(1) that])
  have "mset (map Record (results s)) = mset records"
    if "mainPc s = Finished" "\<forall>r. Record (proc r) = r"
  proof -
    have "mset (map Record (results s)) = image_mset Record (mset (map proc records))"
      using fin [OF that(1)] by (metis mset_map)
    also have "\<dots> = mset (map (\<lambda>r. Record (proc r)) records)"
      by (simp add: multiset.map_comp comp_def)
    finally show ?thesis using that(2) by simp
  qed
  moreover have "length sched \<le> 4 * length records + numWorkers + 3"
    using run_remaining [OF assms(3)] by (simp add: remaining_init)
  moreover have "length (results s) = length records" "mainPc s \<noteq> Panicked"
    using i by (simp_all add: dispatchInv_def)
  ultimately show ?thesis
    using fin inv_progress [OF i] by blast
qed

lemma exampleSchedule_run:
  "run exampleProc exampleSchedule (init [exampleRecord, zeroRecord] 2) = Some exampleFinal"
  by (simp add: exampleSchedule_def init_def step_def exampleFinal_def Let_def numeral_2_eq_2)

theorem dispatcher_one_outcome_per_item_witness:
  "(1::nat) \<le> 2 \<and> length [exampleRecord, zeroRecord] \<le> 2 ^ 31
   \<and> run exampleProc exampleSchedule (init [exampleRecord, zeroRecord] 2) = Some exampleFinal
   \<and> mainPc exampleFinal = Finished
   \<and> length (results exampleFinal) = 2
   \<and> mset (results exampleFinal) = mset (map exampleProc [exampleRecord, zeroRecord])
   \<and> mset (map Record (results exampleFinal)) = mset [exampleRecord, zeroRecord]"
proof -
  have f: "mainPc exampleFinal = Finished"
    by (simp add: exampleFinal_def)
  have r: "\<forall>r. Record (exampleProc r) = r"
    by (simp add: exampleProc_def processRecord_Record)
  have n: "(1::nat) \<le> 2" "length [exampleRecord, zeroRecord] \<le> 2 ^ 31"
    by simp_all
  show ?thesis
    using dispatcher_one_outcome_per_item [OF n exampleSchedule_run] f r exampleSchedule_run
    by simp
qed

text \<open>
  C1. The bound on the number of records above is needed: the counter \<open>index\<close> is an
  \<open>int32\<close>. With \<open>2^31 + 1\<close> records and one worker, the schedule that sends all
  records, processes them and gathers the results stores \<open>2^31\<close> outcomes; at the next
  one \<open>atomic.AddInt32(&index, 1) - 1\<close> is \<open>-2^31\<close>, \<open>results[idx]\<close> panics, and the
  dispatcher returns no collection.
\<close>

theorem dispatcher_index_overflow:
  "map_option mainPc
     (run exampleProc overflowSchedule (init (replicate overflowSize exampleRecord) 1))
   = Some Panicked"
  using overflow_run [of exampleProc exampleRecord] by auto

end
